theory Spec2Isabelle
  imports Main "HOL-Library.Sublist"
begin

section \<open>Errors\<close>

text \<open>
  Every exception the ingestion code can raise is a value.  \<open>DbError\<close> and
  \<open>NetworkError\<close> stand for the exceptions thrown by the database driver and by
  \<open>fetch\<close>; the other constructors are the \<open>new Error(...)\<close> objects the
  sources build themselves.
\<close>

datatype error =
    DbError string
  | NetworkError string
  | RateLimitExceeded
  | AuthorizationFailed
  | ApiError string
  | ApiKeyNotConfigured
  | FailedToSaveVote
  | FailedToSaveVotingSession
  | OtherError string

section \<open>JavaScript strings\<close>

text \<open>
  Strings are lists of characters.  The methods below are the \<open>String.prototype\<close>
  methods the sources call, on ASCII text: \<open>trim\<close>, \<open>includes\<close>, \<open>startsWith\<close>,
  \<open>split\<close> (by a non-empty separator), \<open>toLowerCase\<close> (also SQL \<open>lower\<close>),
  \<open>replace\<close> of the first occurrence of a character by the empty string, and
  \<open>parseInt(s, 10)\<close>.
\<close>

definition is_space :: "char \<Rightarrow> bool" where
  "is_space c = (c \<in> set [CHR '' '', CHR 0x09, CHR 0x0A, CHR 0x0B, CHR 0x0C, CHR 0x0D])"

definition trim :: "string \<Rightarrow> string" where
  "trim s = rev (dropWhile is_space (rev (dropWhile is_space s)))"

fun js_includes :: "string \<Rightarrow> string \<Rightarrow> bool" where
  "js_includes [] sub = (sub = [])"
| "js_includes (c # cs) sub = (prefix sub (c # cs) \<or> js_includes cs sub)"

definition startsWith :: "string \<Rightarrow> string \<Rightarrow> bool" where
  "startsWith s p = prefix p s"

function split_aux :: "string \<Rightarrow> string \<Rightarrow> string \<Rightarrow> string list" where
  "split_aux sep acc [] = [rev acc]"
| "split_aux sep acc (c # cs) =
     (if sep \<noteq> [] \<and> prefix sep (c # cs)
      then rev acc # split_aux sep [] (drop (length sep) (c # cs))
      else split_aux sep (c # acc) cs)"
  by pat_completeness auto
termination
  by (relation "measure (\<lambda>(sep, acc, s). length s)") auto

definition split :: "string \<Rightarrow> string \<Rightarrow> string list" where
  "split sep s = split_aux sep [] s"

definition toLowerCase :: "string \<Rightarrow> string" where
  "toLowerCase s =
     map (\<lambda>c. let n = (of_char c :: nat) in if 65 \<le> n \<and> n \<le> 90 then char_of (n + 32) else c) s"

definition is_digit :: "char \<Rightarrow> bool" where
  "is_digit c = (48 \<le> (of_char c :: nat) \<and> (of_char c :: nat) \<le> 57)"

definition digits_value :: "string \<Rightarrow> int" where
  "digits_value ds = foldl (\<lambda>a c. 10 * a + (int (of_char c) - 48)) 0 ds"

definition parseInt :: "string \<Rightarrow> int option" where
  "parseInt s =
     (let s1 = dropWhile is_space s;
          neg = (case s1 of c # _ \<Rightarrow> c = CHR ''-'' | [] \<Rightarrow> False);
          s2 = (case s1 of c # r \<Rightarrow> if c = CHR ''-'' \<or> c = CHR ''+'' then r else s1 | [] \<Rightarrow> s1);
          ds = takeWhile is_digit s2
      in if ds = [] then None
         else Some (if neg then - digits_value ds else digits_value ds))"

text \<open>Truthiness of an optional string: \<open>null\<close>, \<open>undefined\<close> and \<open>""\<close> are falsy.\<close>

definition truthy :: "string option \<Rightarrow> bool" where
  "truthy x = (case x of None \<Rightarrow> False | Some s \<Rightarrow> s \<noteq> [])"

section \<open>The relational store\<close>

text \<open>
  The tables the ingestion code reads and writes, with the columns its statements name.
  Rows are kept in insertion order; a \<open>serial\<close> key is drawn from the table's sequence.
  Timestamps are numbers of milliseconds.
\<close>

record politician =
  pol_id :: int
  pol_name :: string
  pol_party :: "string option"
  twitter_handle :: "string option"
  pol_created_at :: int

record voting_session =
  vs_id :: int
  vs_session_id :: string
  vs_title :: string
  vs_date :: string
  vote_count :: int
  vs_created_at :: int

record vote_row =
  vote_id :: int
  v_session_id :: int
  v_politician_id :: int
  v_vote :: string
  v_created_at :: int

record tweet_row =
  tweet_id :: string
  t_politician_id :: int
  t_text :: string
  t_created_at :: string

record db =
  politicians :: "politician list"
  voting_sessions :: "voting_session list"
  votes :: "vote_row list"
  tweets :: "tweet_row list"
  politicians_seq :: int
  votes_seq :: int

definition empty_db :: db where
  "empty_db =
     \<lparr>politicians = [], voting_sessions = [], votes = [], tweets = [],
      politicians_seq = 1, votes_seq = 1\<rparr>"

text \<open>
  Any statement sent to the database may throw (connection loss, constraint violation).
  Which statements do is an input of the model: a predicate on the statements of the
  sources.
\<close>

datatype stmt =
    GetClient | Begin | Commit
  | SelectSessionExists | SelectSession | InsertSession
  | SelectPolitician | InsertPolitician | UpdatePoliticianParty
  | SelectVote | UpdateVote | InsertVote | UpdateVoteCount
  | SelectTweetIds | InsertTweets
  | SelectPoliticiansWithHandle | UpdateHandles | SelectPoliticiansWithTwitter
  | Rollback

type_synonym faults = "stmt \<Rightarrow> bool"

definition no_faults :: faults where
  "no_faults = (\<lambda>_. False)"

section \<open>The cache pair of the fetch layer\<close>

text \<open>
  \<open>interface CacheItem<T> { data: T; timestamp: number }\<close>.
\<close>

record 'v CacheItem =
  data :: 'v
  timestamp :: int

text \<open>
  \<open>const cache = new LRUCache({ max: 500, ttl: CACHE_TTL })\<close>.  The library object is
  modelled by the list of its entries, most recently used first; each entry carries the
  time it was stored.  An entry is stale once its age exceeds the time-to-live; \<open>get\<close>
  on a stale entry removes it and answers \<open>undefined\<close>, \<open>get\<close> on a fresh entry
  moves it to the front, \<open>set\<close> stores at the front and drops the least recently used
  entry beyond \<open>max\<close>, \<open>delete\<close> removes the key.
\<close>

definition CACHE_TTL :: int where
  "CACHE_TTL = 10 * 60 * 1000"

definition CACHE_MAX :: nat where
  "CACHE_MAX = 500"

type_synonym 'v lru = "(string \<times> 'v CacheItem \<times> int) list"

fun lru_find :: "string \<Rightarrow> 'v lru \<Rightarrow> ('v CacheItem \<times> int) option" where
  "lru_find k [] = None"
| "lru_find k ((k', v, t) # es) = (if k' = k then Some (v, t) else lru_find k es)"

definition lru_delete :: "string \<Rightarrow> 'v lru \<Rightarrow> 'v lru" where
  "lru_delete k es = filter (\<lambda>e. fst e \<noteq> k) es"

definition lru_get :: "int \<Rightarrow> string \<Rightarrow> 'v lru \<Rightarrow> 'v CacheItem option \<times> 'v lru" where
  "lru_get t k es =
     (case lru_find k es of
        None \<Rightarrow> (None, es)
      | Some (v, t0) \<Rightarrow>
          if t - t0 > CACHE_TTL then (None, lru_delete k es)
          else (Some v, (k, v, t0) # lru_delete k es))"

definition lru_set :: "int \<Rightarrow> string \<Rightarrow> 'v CacheItem \<Rightarrow> 'v lru \<Rightarrow> 'v lru" where
  "lru_set t k v es = take CACHE_MAX ((k, v, t) # lru_delete k es)"

text \<open>
  The module-level state of the fetch layer: the clock read by \<open>Date.now()\<close>, the
  primary cache, the \<open>staleCache\<close> map, the \<open>rateLimitInfo\<close> object, the number of
  outbound \<open>fetch\<close> calls issued so far, the trace of outbound calls and of
  \<open>sleep\<close> calls (oldest first), the database and the statements sent through
  \<open>client.query\<close> (oldest first).  A JavaScript number that may be \<open>NaN\<close> is an
  \<open>int option\<close> with \<open>None\<close> for \<open>NaN\<close>.
\<close>

type_synonym jsnum = "int option"

datatype event = Request string | Sleep jsnum

record 'v state =
  clock :: int
  cache :: "'v lru"
  staleCache :: "string \<rightharpoonup> 'v CacheItem"
  rl_remaining :: jsnum
  rl_reset :: jsnum
  rl_lastUpdated :: int
  requests :: nat
  trace :: "event list"
  database :: db
  queries :: "stmt list"

text \<open>
  \<open>getCachedOrFetch(key, fetchFn)\<close>.  The callback is any computation over the module
  state that either returns a value or throws.
\<close>

definition getCachedOrFetch ::
  "string \<Rightarrow> ('v state \<Rightarrow> (error + 'v) \<times> 'v state) \<Rightarrow> 'v state \<Rightarrow> (error + 'v) \<times> 'v state" where
  "getCachedOrFetch key fetchFn s =
     (case lru_get (clock s) key (cache s) of
        (Some cachedValue, c1) \<Rightarrow>
          (Inr (data cachedValue),
           s\<lparr>cache := c1, staleCache := (staleCache s)(key \<mapsto> cachedValue)\<rparr>)
      | (None, c1) \<Rightarrow>
          (case fetchFn (s\<lparr>cache := c1\<rparr>) of
             (Inr d, s2) \<Rightarrow>
               (let cacheItem = \<lparr>data = d, timestamp = clock s2\<rparr> in
                (Inr d,
                 s2\<lparr>cache := lru_set (clock s2) key cacheItem (cache s2),
                    staleCache := (staleCache s2)(key \<mapsto> cacheItem)\<rparr>))
           | (Inl err, s2) \<Rightarrow>
               (case staleCache s2 key of
                  Some staleValue \<Rightarrow> (Inr (data staleValue), s2)
                | None \<Rightarrow> (Inl err, s2))))"

text \<open>What \<open>cache.get\<close> answers at time \<open>t\<close>, without its side effects.\<close>

definition lru_peek :: "int \<Rightarrow> string \<Rightarrow> 'v lru \<Rightarrow> 'v CacheItem option" where
  "lru_peek t k es = fst (lru_get t k es)"

definition initial_state :: "'v state" where
  "initial_state =
     \<lparr>clock = 0, cache = [], staleCache = Map.empty,
      rl_remaining = Some 300, rl_reset = Some (15 * 60 * 1000), rl_lastUpdated = 0,
      requests = 0, trace = [],
      database = empty_db, queries = []\<rparr>"

section \<open>The rate-limited fetch client\<close>

text \<open>
  A response of the external API, as far as the sources read it: the status, the three
  headers (\<open>null\<close> when absent), the parsed JSON body and the time the call took.
  \<open>InvalidJson\<close> is a body on which \<open>response.json()\<close> throws.
\<close>

record api_error =
  err_title :: "string option"
  err_message :: "string option"

datatype body = InvalidJson | Json "api_error list option" "string option"

record http_response =
  status :: nat
  x_rate_limit_remaining :: "string option"
  x_rate_limit_reset :: "string option"
  retry_after :: "string option"
  json :: body
  elapsed :: nat

definition ok :: "http_response \<Rightarrow> bool" where
  "ok r = (200 \<le> status r \<and> status r \<le> 299)"

text \<open>
  The network: what the \<open>n\<close>-th outbound call (counted from 0) to a URL answers;
  \<open>Inl\<close> when \<open>fetch\<close> itself rejects.
\<close>

type_synonym network = "nat \<Rightarrow> string \<Rightarrow> error + http_response"

definition MAX_RETRIES :: nat where
  "MAX_RETRIES = 3"

definition INITIAL_RETRY_DELAY :: int where
  "INITIAL_RETRY_DELAY = 5000"

definition TWITTER_API_BASE :: string where
  "TWITTER_API_BASE = ''https://api.twitter.com/2''"

text \<open>
  \<open>sleep(ms)\<close>: the clock advances by the duration (a negative or \<open>NaN\<close> duration
  does not wait) and the call is recorded.
\<close>

definition sleep :: "jsnum \<Rightarrow> 'v state \<Rightarrow> 'v state" where
  "sleep ms s =
     s\<lparr>clock := clock s + (case ms of Some n \<Rightarrow> max 0 n | None \<Rightarrow> 0),
       trace := trace s @ [Sleep ms]\<rparr>"

text \<open>\<open>a <= 0\<close> and \<open>a < b\<close> on numbers that may be \<open>NaN\<close>: false when one is.\<close>

definition js_le0 :: "jsnum \<Rightarrow> bool" where
  "js_le0 a = (case a of Some x \<Rightarrow> x \<le> 0 | None \<Rightarrow> False)"

definition js_less :: "int \<Rightarrow> jsnum \<Rightarrow> bool" where
  "js_less a b = (case b of Some y \<Rightarrow> a < y | None \<Rightarrow> False)"

text \<open>
  The delay before a retry:
  \<open>retryAfter ? parseInt(retryAfter, 10) * 1000 : INITIAL_RETRY_DELAY * Math.pow(2, retryCount)\<close>.
\<close>

definition retry_delay :: "http_response \<Rightarrow> nat \<Rightarrow> jsnum" where
  "retry_delay response retryCount =
     (if truthy (retry_after response)
      then map_option (\<lambda>n. n * 1000) (parseInt (the (retry_after response)))
      else Some (INITIAL_RETRY_DELAY * 2 ^ retryCount))"

text \<open>The bookkeeping after a response: the two rate-limit headers and \<open>lastUpdated\<close>.\<close>

definition update_rate_limit :: "int \<Rightarrow> http_response \<Rightarrow> 'v state \<Rightarrow> 'v state" where
  "update_rate_limit now response s =
     s\<lparr>rl_remaining :=
         (if truthy (x_rate_limit_remaining response)
          then parseInt (the (x_rate_limit_remaining response)) else rl_remaining s),
       rl_reset :=
         (if truthy (x_rate_limit_reset response)
          then map_option (\<lambda>n. n * 1000) (parseInt (the (x_rate_limit_reset response)))
          else rl_reset s),
       rl_lastUpdated := now\<rparr>"

text \<open>
  The wait at the entry of \<open>rateLimitedFetch\<close>, when the quota is used up and the reset
  time is ahead.
\<close>

definition quota_wait :: "'v state \<Rightarrow> 'v state" where
  "quota_wait s =
     (if js_le0 (rl_remaining s) \<and> js_less (clock s) (rl_reset s)
      then sleep (Some (the (rl_reset s) - clock s + 1000)) s
      else s)"

text \<open>
  Issuing the call counts it and records it; the answer takes its time and updates the
  bookkeeping, with the value of \<open>now\<close> read at the entry of the function.
\<close>

definition issue :: "string \<Rightarrow> 'v state \<Rightarrow> 'v state" where
  "issue url s = s\<lparr>requests := requests s + 1, trace := trace s @ [Request url]\<rparr>"

definition answered :: "int \<Rightarrow> http_response \<Rightarrow> 'v state \<Rightarrow> 'v state" where
  "answered now response s =
     update_rate_limit now response (s\<lparr>clock := clock s + int (elapsed response)\<rparr>)"

function rateLimitedFetch ::
  "network \<Rightarrow> string \<Rightarrow> nat \<Rightarrow> 'v state \<Rightarrow> (error + http_response) \<times> 'v state" where
  "rateLimitedFetch net url retryCount s =
     (let now = clock s;
          s1 = quota_wait s
      in case net (requests s1) url of
           Inl e \<Rightarrow> (Inl e, issue url s1)
         | Inr response \<Rightarrow>
             (let s3 = answered now response (issue url s1)
              in if status response = 429
                 then (if retryCount \<ge> MAX_RETRIES then (Inl RateLimitExceeded, s3)
                       else rateLimitedFetch net url (retryCount + 1)
                              (sleep (retry_delay response retryCount) s3))
                 else (Inr response, s3)))"
  by pat_completeness auto
termination
  by (relation "measure (\<lambda>(net, url, retryCount, s). MAX_RETRIES - retryCount)") auto

declare rateLimitedFetch.simps [simp del]

text \<open>The state in which \<open>rateLimitedFetch\<close> calls itself after a rate-limit response.\<close>

definition retried :: "string \<Rightarrow> http_response \<Rightarrow> nat \<Rightarrow> 'v state \<Rightarrow> 'v state" where
  "retried url r k s = sleep (retry_delay r k) (answered (clock s) r (issue url (quota_wait s)))"

text \<open>
  \<open>getUserIdFromUsername\<close>.  \<open>scan_errors\<close> is the loop over \<open>errorData.errors\<close>: it
  throws on the first authorization error, returns \<open>null\<close> on the first not-found error
  and falls through (\<open>None\<close>) otherwise.  \<open>user_lookup_try\<close> is the body of the
  \<open>try\<close> block of the callback and \<open>user_lookup\<close> the callback, whose \<open>catch\<close>
  returns \<open>null\<close>.
\<close>

definition msg_includes :: "string option \<Rightarrow> string \<Rightarrow> bool" where
  "msg_includes m sub = (case m of None \<Rightarrow> False | Some x \<Rightarrow> js_includes x sub)"

fun scan_errors :: "api_error list \<Rightarrow> (error + string option) option" where
  "scan_errors [] = None"
| "scan_errors (e # es) =
     (if err_title e = Some ''Unauthorized'' \<or> msg_includes (err_message e) ''authorization''
      then Some (Inl AuthorizationFailed)
      else if err_title e = Some ''Not Found'' \<or> msg_includes (err_message e) ''not found''
      then Some (Inr None)
      else scan_errors es)"

definition error_text :: "api_error \<Rightarrow> string" where
  "error_text e =
     (if truthy (err_message e) then the (err_message e)
      else case err_title e of Some t \<Rightarrow> t | None \<Rightarrow> [])"

fun join :: "string \<Rightarrow> string list \<Rightarrow> string" where
  "join sep [] = []"
| "join sep [x] = x"
| "join sep (x # y # ys) = x @ sep @ join sep (y # ys)"

definition user_url :: "string \<Rightarrow> string" where
  "user_url cleanUsername = TWITTER_API_BASE @ ''/users/by/username/'' @ cleanUsername"

definition user_lookup_try ::
  "string option \<Rightarrow> network \<Rightarrow> string \<Rightarrow> 'v state \<Rightarrow> (error + string option) \<times> 'v state" where
  "user_lookup_try api_key net cleanUsername s =
     (if \<not> truthy api_key then (Inl ApiKeyNotConfigured, s)
      else
        case rateLimitedFetch net (user_url cleanUsername) 0 s of
          (Inl e, s1) \<Rightarrow> (Inl e, s1)
        | (Inr response, s1) \<Rightarrow>
            (case json response of
               InvalidJson \<Rightarrow> (Inl (OtherError ''invalid json''), s1)
             | Json errors user_id \<Rightarrow>
                 if \<not> ok response then
                   (case errors of
                      Some (e # es) \<Rightarrow>
                        (case scan_errors (e # es) of
                           Some r \<Rightarrow> (r, s1)
                         | None \<Rightarrow>
                             (Inl (ApiError (''Twitter API error: '' @ join '', '' (map error_text (e # es)))), s1))
                    | _ \<Rightarrow> (Inl (ApiError ''Twitter API error''), s1))
                 else (Inr (if truthy user_id then user_id else None), s1)))"

definition user_lookup ::
  "string option \<Rightarrow> network \<Rightarrow> string \<Rightarrow> 'v state \<Rightarrow> (error + string option) \<times> 'v state" where
  "user_lookup api_key net cleanUsername s =
     (case user_lookup_try api_key net cleanUsername s of
        (Inl e, s1) \<Rightarrow> (Inr None, s1)
      | (Inr v, s1) \<Rightarrow> (Inr v, s1))"

definition cleanUsername :: "string \<Rightarrow> string" where
  "cleanUsername username =
     hd (split ''?'' (last (split ''/'' (remove1 (CHR ''@'') (trim username)))))"

definition getUserIdFromUsername ::
  "string option \<Rightarrow> network \<Rightarrow> string \<Rightarrow> (string option) state
     \<Rightarrow> (error + string option) \<times> (string option) state" where
  "getUserIdFromUsername api_key net username s =
     (if cleanUsername username = [] then (Inr None, s)
      else getCachedOrFetch (''twitter_user_'' @ toLowerCase (cleanUsername username))
             (user_lookup api_key net (cleanUsername username)) s)"

section \<open>The ingestion reconciler\<close>

subsection \<open>Voting sessions and votes\<close>

text \<open>
  \<open>sessionExists\<close> answers \<open>false\<close> when its query throws.  \<open>saveVotingSession\<close> and
  \<open>saveVote\<close> send their statements one at a time through the connection pool, so each
  statement takes effect as soon as it has run; the \<open>catch\<close> of either function throws
  a new error in place of the one caught.  The argument \<open>now\<close> is the reading of
  \<open>new Date()\<close>.
\<close>

definition sessionExists :: "faults \<Rightarrow> int \<Rightarrow> db \<Rightarrow> bool" where
  "sessionExists fl sessionId d =
     (if fl SelectSessionExists then False
      else list_ex (\<lambda>r. vs_id r = sessionId) (voting_sessions d))"

definition saveVotingSession ::
  "faults \<Rightarrow> int \<Rightarrow> string \<Rightarrow> string \<Rightarrow> string \<Rightarrow> db \<Rightarrow> (error + int) \<times> db" where
  "saveVotingSession fl now sessionId title date d =
     (case parseInt sessionId of
        None \<Rightarrow> (Inl FailedToSaveVotingSession, d)
      | Some numericSessionId \<Rightarrow>
          if sessionExists fl numericSessionId d then
            (if fl SelectSession then (Inl FailedToSaveVotingSession, d)
             else case find (\<lambda>r. vs_id r = numericSessionId) (voting_sessions d) of
                    Some r \<Rightarrow> (Inr (vs_id r), d)
                  | None \<Rightarrow> (Inl FailedToSaveVotingSession, d))
          else if fl InsertSession then (Inl FailedToSaveVotingSession, d)
          else (Inr numericSessionId,
                d\<lparr>voting_sessions := voting_sessions d @
                     [\<lparr>vs_id = numericSessionId, vs_session_id = sessionId, vs_title = title,
                       vs_date = date, vote_count = 0, vs_created_at = now\<rparr>]\<rparr>))"

text \<open>The second half of \<open>saveVote\<close>: the lookup of the vote and its update or insert.\<close>

definition upsertVote ::
  "faults \<Rightarrow> int \<Rightarrow> int \<Rightarrow> int \<Rightarrow> string \<Rightarrow> db \<Rightarrow> (error + bool) \<times> db" where
  "upsertVote fl now sessionId politicianId vote d =
     (if fl SelectVote then (Inl FailedToSaveVote, d)
      else
        case find (\<lambda>v. v_session_id v = sessionId \<and> v_politician_id v = politicianId) (votes d) of
          Some existingVote \<Rightarrow>
            if fl UpdateVote then (Inl FailedToSaveVote, d)
            else (Inr True,
                  d\<lparr>votes := map (\<lambda>v. if vote_id v = vote_id existingVote
                                       then v\<lparr>v_vote := vote\<rparr> else v) (votes d)\<rparr>)
        | None \<Rightarrow>
            if fl InsertVote then (Inl FailedToSaveVote, d)
            else
              (let d1 = d\<lparr>votes := votes d @
                            [\<lparr>vote_id = votes_seq d, v_session_id = sessionId,
                              v_politician_id = politicianId, v_vote = vote,
                              v_created_at = now\<rparr>],
                          votes_seq := votes_seq d + 1\<rparr>
               in if fl UpdateVoteCount then (Inl FailedToSaveVote, d1)
                  else (Inr True,
                        d1\<lparr>voting_sessions :=
                             map (\<lambda>r. if vs_id r = sessionId
                                       then r\<lparr>vote_count := vote_count r + 1\<rparr> else r)
                               (voting_sessions d1)\<rparr>)))"

definition saveVote ::
  "faults \<Rightarrow> int \<Rightarrow> int \<Rightarrow> string \<Rightarrow> string \<Rightarrow> string \<Rightarrow> db \<Rightarrow> (error + bool) \<times> db" where
  "saveVote fl now sessionId politicianName party vote d =
     (if fl SelectPolitician then (Inl FailedToSaveVote, d)
      else
        case find (\<lambda>p. toLowerCase (pol_name p) = toLowerCase politicianName) (politicians d) of
          None \<Rightarrow>
            if fl InsertPolitician then (Inl FailedToSaveVote, d)
            else upsertVote fl now sessionId (politicians_seq d) vote
                   (d\<lparr>politicians := politicians d @
                        [\<lparr>pol_id = politicians_seq d, pol_name = politicianName,
                          pol_party = Some party, twitter_handle = None,
                          pol_created_at = now\<rparr>],
                      politicians_seq := politicians_seq d + 1\<rparr>)
        | Some p \<Rightarrow>
            if fl UpdatePoliticianParty then (Inl FailedToSaveVote, d)
            else upsertVote fl now sessionId (pol_id p) vote
                   (d\<lparr>politicians := map (\<lambda>q. if pol_id q = pol_id p
                                                 then q\<lparr>pol_party := Some party\<rparr> else q)
                                         (politicians d)\<rparr>))"

subsection \<open>A database client and its transaction\<close>

text \<open>
  The functions of the fetch module take one client from the pool and bracket their
  statements with \<open>BEGIN\<close> and \<open>COMMIT\<close>.  A client holds the durable database, the
  uncommitted view of an open transaction and the statements sent so far.
\<close>

record pg_client =
  durable :: db
  pending :: "db option"
  sent :: "stmt list"

definition pg_send :: "stmt \<Rightarrow> pg_client \<Rightarrow> pg_client" where
  "pg_send st c = c\<lparr>sent := sent c @ [st]\<rparr>"

definition pg_begin :: "pg_client \<Rightarrow> pg_client" where
  "pg_begin c = (pg_send Begin c)\<lparr>pending := Some (durable c)\<rparr>"

definition pg_view :: "pg_client \<Rightarrow> db" where
  "pg_view c = (case pending c of Some d \<Rightarrow> d | None \<Rightarrow> durable c)"

definition pg_write :: "stmt \<Rightarrow> (db \<Rightarrow> db) \<Rightarrow> pg_client \<Rightarrow> pg_client" where
  "pg_write st f c =
     (case pending c of
        Some d \<Rightarrow> (pg_send st c)\<lparr>pending := Some (f d)\<rparr>
      | None \<Rightarrow> (pg_send st c)\<lparr>durable := f (durable c)\<rparr>)"

definition pg_commit :: "pg_client \<Rightarrow> pg_client" where
  "pg_commit c =
     (case pending c of
        Some d \<Rightarrow> (pg_send Commit c)\<lparr>durable := d, pending := None\<rparr>
      | None \<Rightarrow> pg_send Commit c)"

definition pg_rollback :: "pg_client \<Rightarrow> pg_client" where
  "pg_rollback c = (pg_send Rollback c)\<lparr>pending := None\<rparr>"

subsection \<open>Tweets\<close>

record tweet_in =
  tw_id :: string
  tw_text :: string
  tw_created_at :: string

text \<open>
  \<open>saveTweetsToDatabase\<close>: \<open>save_tweets_try\<close> is the body of the \<open>try\<close> block after the
  client has been taken, up to \<open>COMMIT\<close>.
\<close>

definition save_tweets_try ::
  "faults \<Rightarrow> tweet_in list \<Rightarrow> int \<Rightarrow> pg_client \<Rightarrow> (error + nat) \<times> pg_client" where
  "save_tweets_try fl tweetData politicianId c0 =
     (if fl Begin then (Inl (DbError ''BEGIN''), pg_send Begin c0)
      else
        (let c1 = pg_begin c0 in
         if fl SelectTweetIds then (Inl (DbError ''SELECT''), pg_send SelectTweetIds c1)
         else
           (let c2 = pg_send SelectTweetIds c1;
                existingTweetIds =
                  set (map tweet_id
                         (filter (\<lambda>r. t_politician_id r = politicianId) (tweets (pg_view c2))));
                vals = filter (\<lambda>tweet. tw_id tweet \<notin> existingTweetIds) tweetData
            in if vals \<noteq> [] then
                 (if fl InsertTweets then (Inl (DbError ''INSERT''), pg_send InsertTweets c2)
                  else
                    (let c3 = pg_write InsertTweets
                                (\<lambda>d. d\<lparr>tweets := tweets d @
                                        map (\<lambda>tweet. \<lparr>tweet_id = tw_id tweet,
                                                       t_politician_id = politicianId,
                                                       t_text = tw_text tweet,
                                                       t_created_at = tw_created_at tweet\<rparr>) vals\<rparr>) c2
                     in if fl Commit then (Inl (DbError ''COMMIT''), pg_send Commit c3)
                        else (Inr (length vals), pg_commit c3)))
               else if fl Commit then (Inl (DbError ''COMMIT''), pg_send Commit c2)
               else (Inr 0, pg_commit c2))))"

definition saveTweetsToDatabase ::
  "faults \<Rightarrow> tweet_in list \<Rightarrow> int \<Rightarrow> 'v state \<Rightarrow> (error + nat) \<times> 'v state" where
  "saveTweetsToDatabase fl tweetData politicianId s =
     (if tweetData = [] then (Inr 0, s)
      else if fl GetClient then (Inl (DbError ''getClient''), s)
      else
        case save_tweets_try fl tweetData politicianId
               \<lparr>durable = database s, pending = None, sent = []\<rparr> of
          (Inr savedCount, c) \<Rightarrow>
            (Inr savedCount,
             s\<lparr>database := durable c, queries := queries s @ sent c,
               cache := lru_delete ''tweet_stats'' (lru_delete ''recent_tweets_10'' (cache s))\<rparr>)
        | (Inl e, c) \<Rightarrow>
            (Inl e, s\<lparr>database := durable (pg_rollback c),
                      queries := queries s @ sent (pg_rollback c)\<rparr>))"

subsection \<open>The handle fix-up\<close>

text \<open>
  The body of the loop of \<open>checkAndFixTwitterHandles\<close> rewrites two variables, the
  handle and the flag \<open>fixed\<close>, in five steps, one for each \<open>if\<close> block of the source.
  \<open>split(sep).pop() || ''\<close> is the last piece, \<open>split(sep)[0]\<close> the first.
\<close>

definition fix_twitter_url :: "string \<times> bool \<Rightarrow> string \<times> bool" where
  "fix_twitter_url p =
     (case p of (twitterHandle, fixed) \<Rightarrow>
        if js_includes twitterHandle ''twitter.com/''
        then (last (split ''twitter.com/'' twitterHandle), True) else (twitterHandle, fixed))"

definition fix_x_url :: "string \<times> bool \<Rightarrow> string \<times> bool" where
  "fix_x_url p =
     (case p of (twitterHandle, fixed) \<Rightarrow>
        if js_includes twitterHandle ''x.com/''
        then (last (split ''x.com/'' twitterHandle), True) else (twitterHandle, fixed))"

definition fix_path :: "string \<times> bool \<Rightarrow> string \<times> bool" where
  "fix_path p =
     (case p of (twitterHandle, fixed) \<Rightarrow>
        if js_includes twitterHandle ''/'' \<or> js_includes twitterHandle ''?''
        then (hd (split ''?'' (hd (split ''/'' twitterHandle))), True) else (twitterHandle, fixed))"

definition fix_at :: "string \<times> bool \<Rightarrow> string \<times> bool" where
  "fix_at p =
     (case p of (twitterHandle, fixed) \<Rightarrow>
        if startsWith twitterHandle ''@'' then (drop 1 twitterHandle, True)
        else (twitterHandle, fixed))"

definition fix_trim :: "string \<times> bool \<Rightarrow> string \<times> bool" where
  "fix_trim p =
     (case p of (twitterHandle, fixed) \<Rightarrow>
        if twitterHandle \<noteq> trim twitterHandle then (trim twitterHandle, True)
        else (twitterHandle, fixed))"

definition fix_handle :: "string \<Rightarrow> string \<times> bool" where
  "fix_handle originalHandle =
     fix_trim (fix_at (fix_path (fix_x_url (fix_twitter_url (originalHandle, False)))))"

record fix_detail =
  fd_id :: int
  fd_name :: string
  fd_original :: string
  fd_fixed :: "string option"
  fd_status :: string

record fix_results =
  fx_total :: nat
  fx_fixed :: nat
  fx_errors :: nat
  fx_details :: "fix_detail list"

text \<open>The queue \<open>updates\<close> of (id, handle) pairs and the entries of \<open>results.details\<close>.\<close>

definition handle_updates :: "politician list \<Rightarrow> (int \<times> string) list" where
  "handle_updates rows =
     map (\<lambda>p. (pol_id p, fst (fix_handle (the (twitter_handle p)))))
       (filter (\<lambda>p. snd (fix_handle (the (twitter_handle p)))
                     \<and> fst (fix_handle (the (twitter_handle p))) \<noteq> []) rows)"

definition handle_detail :: "politician \<Rightarrow> fix_detail" where
  "handle_detail p =
     (let (h, fixed) = fix_handle (the (twitter_handle p)) in
      \<lparr>fd_id = pol_id p, fd_name = pol_name p, fd_original = the (twitter_handle p),
       fd_fixed = (if fixed then Some h else None),
       fd_status = (if fixed then ''fixed'' else ''ok'')\<rparr>)"

text \<open>
  \<open>UPDATE politicians AS p SET twitter_handle = c.handle FROM (VALUES ...) AS c(id, handle)
  WHERE p.id = c.id\<close>.
\<close>

definition apply_handle_updates :: "(int \<times> string) list \<Rightarrow> db \<Rightarrow> db" where
  "apply_handle_updates updates d =
     d\<lparr>politicians :=
         map (\<lambda>p. case find (\<lambda>u. fst u = pol_id p) updates of
                     Some u \<Rightarrow> p\<lparr>twitter_handle := Some (snd u)\<rparr>
                   | None \<Rightarrow> p) (politicians d)\<rparr>"

definition check_fix_try :: "faults \<Rightarrow> pg_client \<Rightarrow> (error + fix_results) \<times> pg_client" where
  "check_fix_try fl c0 =
     (if fl Begin then (Inl (DbError ''BEGIN''), pg_send Begin c0)
      else
        (let c1 = pg_begin c0 in
         if fl SelectPoliticiansWithHandle
         then (Inl (DbError ''SELECT''), pg_send SelectPoliticiansWithHandle c1)
         else
           (let c2 = pg_send SelectPoliticiansWithHandle c1;
                rows = filter (\<lambda>p. twitter_handle p \<noteq> None) (politicians (pg_view c2));
                updates = handle_updates rows;
                results = \<lparr>fx_total = length rows, fx_fixed = length updates, fx_errors = 0,
                           fx_details = map handle_detail rows\<rparr>
            in if updates \<noteq> [] then
                 (if fl UpdateHandles then (Inl (DbError ''UPDATE''), pg_send UpdateHandles c2)
                  else
                    (let c3 = pg_write UpdateHandles (apply_handle_updates updates) c2
                     in if fl Commit then (Inl (DbError ''COMMIT''), pg_send Commit c3)
                        else (Inr results, pg_commit c3)))
               else if fl Commit then (Inl (DbError ''COMMIT''), pg_send Commit c2)
               else (Inr results, pg_commit c2))))"

definition checkAndFixTwitterHandles ::
  "faults \<Rightarrow> 'v state \<Rightarrow> (error + fix_results) \<times> 'v state" where
  "checkAndFixTwitterHandles fl s =
     (if fl GetClient then (Inl (DbError ''getClient''), s)
      else
        case check_fix_try fl \<lparr>durable = database s, pending = None, sent = []\<rparr> of
          (Inr results, c) \<Rightarrow>
            (Inr results,
             s\<lparr>database := durable c, queries := queries s @ sent c,
               cache := lru_delete ''politicians_with_twitter'' (cache s)\<rparr>)
        | (Inl e, c) \<Rightarrow>
            (Inl e, s\<lparr>database := durable (pg_rollback c),
                      queries := queries s @ sent (pg_rollback c)\<rparr>))"

subsection \<open>The run over all politicians\<close>











subsection \<open>An ingestion batch\<close>

text \<open>
  A batch is a sequence of calls of the three write operations, each made at some time.
\<close>

datatype call =
    SaveVotingSession string string string
  | SaveVote int string string string
  | SaveTweets "tweet_in list" int



section \<open>Invariants and reachable states\<close>

text \<open>
  The two lookups of \<open>saveVote\<close>, the id of the politician a vote is saved for (the
  id of the row found by name, or the next value of the sequence when a row is
  inserted), and the effect of the two halves of \<open>saveVote\<close> when no statement
  fails.
\<close>

definition pol_find :: "string \<Rightarrow> db \<Rightarrow> politician option" where
  "pol_find politicianName d =
     find (\<lambda>p. toLowerCase (pol_name p) = toLowerCase politicianName) (politicians d)"

definition vote_find :: "int \<Rightarrow> int \<Rightarrow> db \<Rightarrow> vote_row option" where
  "vote_find sessionId politicianId d =
     find (\<lambda>v. v_session_id v = sessionId \<and> v_politician_id v = politicianId) (votes d)"

definition politician_for :: "string \<Rightarrow> db \<Rightarrow> int" where
  "politician_for politicianName d =
     (case pol_find politicianName d of None \<Rightarrow> politicians_seq d | Some p \<Rightarrow> pol_id p)"

definition upsert_politician :: "int \<Rightarrow> string \<Rightarrow> string \<Rightarrow> db \<Rightarrow> db" where
  "upsert_politician now politicianName party d =
     (case pol_find politicianName d of
        None \<Rightarrow>
          d\<lparr>politicians := politicians d @
               [\<lparr>pol_id = politicians_seq d, pol_name = politicianName,
                 pol_party = Some party, twitter_handle = None, pol_created_at = now\<rparr>],
             politicians_seq := politicians_seq d + 1\<rparr>
      | Some p \<Rightarrow>
          d\<lparr>politicians := map (\<lambda>q. if pol_id q = pol_id p then q\<lparr>pol_party := Some party\<rparr> else q)
                                (politicians d)\<rparr>)"

definition new_vote :: "int \<Rightarrow> int \<Rightarrow> int \<Rightarrow> string \<Rightarrow> db \<Rightarrow> vote_row" where
  "new_vote now sessionId politicianId vote d =
     \<lparr>vote_id = votes_seq d, v_session_id = sessionId, v_politician_id = politicianId,
      v_vote = vote, v_created_at = now\<rparr>"

definition count_vote :: "int \<Rightarrow> voting_session list \<Rightarrow> voting_session list" where
  "count_vote sessionId rows =
     map (\<lambda>r. if vs_id r = sessionId then r\<lparr>vote_count := vote_count r + 1\<rparr> else r) rows"

definition upsert_vote :: "int \<Rightarrow> int \<Rightarrow> int \<Rightarrow> string \<Rightarrow> db \<Rightarrow> db" where
  "upsert_vote now sessionId politicianId vote d =
     (case vote_find sessionId politicianId d of
        Some existingVote \<Rightarrow>
          d\<lparr>votes := map (\<lambda>v. if vote_id v = vote_id existingVote then v\<lparr>v_vote := vote\<rparr> else v)
                          (votes d)\<rparr>
      | None \<Rightarrow>
          d\<lparr>votes := votes d @ [new_vote now sessionId politicianId vote d],
            votes_seq := votes_seq d + 1,
            voting_sessions := count_vote sessionId (voting_sessions d)\<rparr>)"

text \<open>
  The unique index of the votes table, and the databases the write operations can reach
  from the empty one, whatever statements fail.
\<close>

definition votes_unique :: "db \<Rightarrow> bool" where
  "votes_unique d = distinct (map (\<lambda>v. (v_politician_id v, v_session_id v)) (votes d))"

inductive reachable_db :: "db \<Rightarrow> bool" where
  empty: "reachable_db empty_db"
| session: "reachable_db d \<Longrightarrow> reachable_db (snd (saveVotingSession fl now sessionId title date d))"
| vote: "reachable_db d \<Longrightarrow> reachable_db (snd (saveVote fl now sessionId politicianName party v d))"
| tweets: "reachable_db (database s) \<Longrightarrow>
     reachable_db (database (snd (saveTweetsToDatabase fl tweetData politicianId (s :: unit state))))"
| handles: "reachable_db (database s) \<Longrightarrow>
     reachable_db (database (snd (checkAndFixTwitterHandles fl (s :: unit state))))"

text \<open>
  The row \<open>saveTweetsToDatabase\<close> inserts for a tweet, and the external ids stored for
  a politician.
\<close>

definition tweet_of :: "int \<Rightarrow> tweet_in \<Rightarrow> tweet_row" where
  "tweet_of politicianId tweet =
     \<lparr>tweet_id = tw_id tweet, t_politician_id = politicianId, t_text = tw_text tweet,
      t_created_at = tw_created_at tweet\<rparr>"

definition stored_ids :: "int \<Rightarrow> db \<Rightarrow> string set" where
  "stored_ids politicianId d = tweet_id ` {r \<in> set (tweets d). t_politician_id r = politicianId}"

text \<open>
  A callback is cache-safe when it leaves the two caches alone: the callbacks of the
  fetch module query the network or the database only.
\<close>

definition cache_safe :: "('v state \<Rightarrow> (error + 'v) \<times> 'v state) \<Rightarrow> bool" where
  "cache_safe f = (\<forall>x. cache (snd (f x)) = cache x \<and> staleCache (snd (f x)) = staleCache x)"

text \<open>
  The states of the cache pair the module can reach, each with the value most recently
  returned by a successful \<open>getCachedOrFetch\<close> for every key.  The steps are the calls of
  \<open>getCachedOrFetch\<close>, the invalidations \<open>cache.delete\<close>, the two write paths that
  invalidate, and anything that does not touch the caches.
\<close>

inductive served :: "'v state \<Rightarrow> (string \<rightharpoonup> 'v) \<Rightarrow> bool" where
  start: "cache s = [] \<Longrightarrow> staleCache s = Map.empty \<Longrightarrow> served s Map.empty"
| returned: "served s ret \<Longrightarrow> cache_safe f \<Longrightarrow> getCachedOrFetch key f s = (Inr v, s') \<Longrightarrow>
     served s' (ret(key \<mapsto> v))"
| thrown: "served s ret \<Longrightarrow> cache_safe f \<Longrightarrow> getCachedOrFetch key f s = (Inl e, s') \<Longrightarrow>
     served s' ret"
| invalidated: "served s ret \<Longrightarrow> served (s\<lparr>cache := lru_delete k (cache s)\<rparr>) ret"
| tweets_saved: "served s ret \<Longrightarrow> served (snd (saveTweetsToDatabase fl tweetData politicianId s)) ret"
| handles_fixed: "served s ret \<Longrightarrow> served (snd (checkAndFixTwitterHandles fl s)) ret"
| elsewhere: "served s ret \<Longrightarrow> cache s' = cache s \<Longrightarrow> staleCache s' = staleCache s \<Longrightarrow>
     served s' ret"

definition cache_in_stale :: "'v state \<Rightarrow> bool" where
  "cache_in_stale s = (\<forall>e \<in> set (cache s). staleCache s (fst e) = Some (fst (snd e)))"

definition stale_is_last :: "'v state \<Rightarrow> (string \<rightharpoonup> 'v) \<Rightarrow> bool" where
  "stale_is_last s ret =
     (\<forall>k v. ret k = Some v \<longrightarrow> (\<exists>item. staleCache s k = Some item \<and> data item = v))"





text \<open>
  The ids of the politicians and of the votes come from a sequence: every id in use is
  below the next value of its sequence.
\<close>

definition db_wf :: "db \<Rightarrow> bool" where
  "db_wf d = ((\<forall>p\<in>set (politicians d). pol_id p < politicians_seq d) \<and>
              (\<forall>r\<in>set (votes d). vote_id r < votes_seq d))"

text \<open>
  The effect of one call of a batch on the database when no statement fails, and of a
  whole batch.
\<close>

definition db_call :: "int \<Rightarrow> call \<Rightarrow> db \<Rightarrow> db" where
  "db_call now c d =
     (case c of
        SaveVotingSession sessionId title date \<Rightarrow>
          snd (saveVotingSession no_faults now sessionId title date d)
      | SaveVote sessionId politicianName party vote \<Rightarrow>
          snd (saveVote no_faults now sessionId politicianName party vote d)
      | SaveTweets tweetData politicianId \<Rightarrow>
          d\<lparr>tweets := tweets d @
               map (tweet_of politicianId)
                 (filter (\<lambda>t. tw_id t \<notin> stored_ids politicianId d) tweetData)\<rparr>)"

fun db_run :: "(int \<times> call) list \<Rightarrow> db \<Rightarrow> db" where
  "db_run [] d = d"
| "db_run ((now, c) # cs) d = db_run cs (db_call now c d)"

text \<open>
  The row of the votes table a call of \<open>saveVote\<close> writes (the id of the row found for
  the pair, or the next value of the sequence), the two \<open>UPDATE\<close> statements of
  \<open>saveVote\<close> on one row, and what a call of a batch does to a row of each table once
  its rows exist.
\<close>

definition vote_for :: "int \<Rightarrow> string \<Rightarrow> db \<Rightarrow> int" where
  "vote_for sessionId politicianName d =
     (case vote_find sessionId (politician_for politicianName d) d of
        None \<Rightarrow> votes_seq d | Some e \<Rightarrow> vote_id e)"

definition set_party :: "int \<Rightarrow> string \<Rightarrow> politician \<Rightarrow> politician" where
  "set_party politicianId party q =
     (if pol_id q = politicianId then q\<lparr>pol_party := Some party\<rparr> else q)"

definition set_vote :: "int \<Rightarrow> string \<Rightarrow> vote_row \<Rightarrow> vote_row" where
  "set_vote voteId vote r = (if vote_id r = voteId then r\<lparr>v_vote := vote\<rparr> else r)"

definition prow :: "db \<Rightarrow> call \<Rightarrow> politician \<Rightarrow> politician" where
  "prow d c =
     (case c of
        SaveVote sessionId politicianName party vote \<Rightarrow>
          set_party (politician_for politicianName d) party
      | _ \<Rightarrow> id)"

definition vrow :: "db \<Rightarrow> call \<Rightarrow> vote_row \<Rightarrow> vote_row" where
  "vrow d c =
     (case c of
        SaveVote sessionId politicianName party vote \<Rightarrow>
          set_vote (vote_for sessionId politicianName d) vote
      | _ \<Rightarrow> id)"

text \<open>
  A call is covered by a database when it inserts nothing there: the session, the
  politician and the vote, or the tweets, already exist.
\<close>

definition covered :: "call \<Rightarrow> db \<Rightarrow> bool" where
  "covered c d =
     (case c of
        SaveVotingSession sessionId title date \<Rightarrow>
          (case parseInt sessionId of
             None \<Rightarrow> True
           | Some n \<Rightarrow> list_ex (\<lambda>r. vs_id r = n) (voting_sessions d))
      | SaveVote sessionId politicianName party vote \<Rightarrow>
          pol_find politicianName d \<noteq> None \<and>
          vote_find sessionId (politician_for politicianName d) d \<noteq> None
      | SaveTweets tweetData politicianId \<Rightarrow>
          tw_id ` set tweetData \<subseteq> stored_ids politicianId d)"

text \<open>
  A database after the calls \<open>cs\<close> have rewritten its rows, and a database whose rows
  the calls \<open>cs\<close>, which it covers, leave as they are.
\<close>

definition overwritten :: "db \<Rightarrow> call list \<Rightarrow> db" where
  "overwritten t cs =
     t\<lparr>politicians := map (fold (prow t) cs) (politicians t),
       votes := map (fold (vrow t) cs) (votes t)\<rparr>"


section \<open>Example inputs\<close>

text \<open>
  Concrete inputs on which the theorems below are instantiated: a callback that succeeds,
  one that fails, and the state after the first has been cached under the key \<open>k\<close>.
\<close>

definition ex_fetch :: "nat state \<Rightarrow> (error + nat) \<times> nat state" where
  "ex_fetch s = (Inr 7, s\<lparr>requests := requests s + 1\<rparr>)"

definition ex_fail :: "nat state \<Rightarrow> (error + nat) \<times> nat state" where
  "ex_fail s = (Inl (NetworkError ''down''), s\<lparr>requests := requests s + 1\<rparr>)"

definition ex_cached :: "nat state" where
  "ex_cached =
     initial_state
       \<lparr>requests := 1,
        cache := [(''k'', \<lparr>data = 7, timestamp = 0\<rparr>, 0)],
        staleCache := [''k'' \<mapsto> \<lparr>data = 7, timestamp = 0\<rparr>]\<rparr>"




definition ex_401 :: http_response where
  "ex_401 =
     \<lparr>status = 401, x_rate_limit_remaining = None, x_rate_limit_reset = None,
      retry_after = None,
      json = Json (Some [\<lparr>err_title = Some ''Unauthorized'', err_message = None\<rparr>]) None,
      elapsed = 0\<rparr>"

definition ex_404 :: http_response where
  "ex_404 =
     \<lparr>status = 404, x_rate_limit_remaining = None, x_rate_limit_reset = None,
      retry_after = None,
      json = Json (Some [\<lparr>err_title = Some ''Not Found'', err_message = None\<rparr>]) None,
      elapsed = 0\<rparr>"

definition ex_net_404 :: network where
  "ex_net_404 n url = Inr ex_404"



definition ex_net_401 :: network where
  "ex_net_401 n url = Inr ex_401"

text \<open>
  A database with two politicians, one voting session and one stored tweet, and a batch
  of two tweets of which the first is the stored one.
\<close>

definition ex_tw1 :: tweet_in where
  "ex_tw1 = \<lparr>tw_id = ''100'', tw_text = ''first'', tw_created_at = ''2024-01-01''\<rparr>"

definition ex_tw2 :: tweet_in where
  "ex_tw2 = \<lparr>tw_id = ''101'', tw_text = ''second'', tw_created_at = ''2024-01-02''\<rparr>"

definition ex_db :: db where
  "ex_db =
     \<lparr>politicians =
        [\<lparr>pol_id = 1, pol_name = ''John Doe'', pol_party = Some ''ODS'',
          twitter_handle = Some ''https://x.com/JohnDoe/status/123?x=1'', pol_created_at = 0\<rparr>,
         \<lparr>pol_id = 2, pol_name = ''Jane Doe'', pol_party = Some ''ANO'',
          twitter_handle = Some ''janedoe'', pol_created_at = 0\<rparr>],
      voting_sessions =
        [\<lparr>vs_id = 7, vs_session_id = ''7'', vs_title = ''Budget'', vs_date = ''2024-01-01'',
          vote_count = 0, vs_created_at = 0\<rparr>],
      votes = [],
      tweets = [tweet_of 1 ex_tw1],
      politicians_seq = 3, votes_seq = 1\<rparr>"

definition ex_state :: "unit state" where
  "ex_state = initial_state\<lparr>database := ex_db\<rparr>"


text \<open>Faults: the increment of \<open>vote_count\<close> fails, and the insert of the tweets fails.\<close>

definition ex_fault_count :: faults where
  "ex_fault_count st = (st = UpdateVoteCount)"

definition ex_fault_insert :: faults where
  "ex_fault_insert st = (st = InsertTweets)"

definition ex_fault_update :: faults where
  "ex_fault_update st = (st = UpdateHandles)"



section \<open>The cache pair: lookup, fallback and invariant\<close>

lemma lru_find_delete_same: "lru_find k (lru_delete k es) = None"
  by (induction es) (auto simp: lru_delete_def)

lemma lru_peek_eq:
  "lru_peek t k es =
     (case lru_find k es of
        None \<Rightarrow> None
      | Some (v, t0) \<Rightarrow> if t - t0 > CACHE_TTL then None else Some v)"
  by (simp add: lru_peek_def lru_get_def split: option.splits)

lemma lru_peek_set:
  "lru_peek t k (lru_set t0 k v es) = (if t - t0 > CACHE_TTL then None else Some v)"
  by (simp add: lru_peek_eq lru_set_def CACHE_MAX_def)

lemma getCachedOrFetch_hit:
  assumes "lru_peek (clock s) key (cache s) = Some item"
  shows "getCachedOrFetch key fetchFn s =
           (Inr (data item),
            s\<lparr>cache := snd (lru_get (clock s) key (cache s)),
              staleCache := (staleCache s)(key \<mapsto> item)\<rparr>)"
  using assms by (auto simp: getCachedOrFetch_def lru_peek_def split: prod.splits option.splits)

lemma getCachedOrFetch_computed:
  assumes "lru_peek (clock s) key (cache s) = None"
    and "fetchFn (s\<lparr>cache := snd (lru_get (clock s) key (cache s))\<rparr>) = (Inr d, s2)"
  shows "getCachedOrFetch key fetchFn s =
           (Inr d,
            s2\<lparr>cache := lru_set (clock s2) key \<lparr>data = d, timestamp = clock s2\<rparr> (cache s2),
               staleCache := (staleCache s2)(key \<mapsto> \<lparr>data = d, timestamp = clock s2\<rparr>)\<rparr>)"
  using assms by (auto simp: getCachedOrFetch_def lru_peek_def Let_def split: prod.splits option.splits)

lemma getCachedOrFetch_failed:
  assumes "lru_peek (clock s) key (cache s) = None"
    and "fetchFn (s\<lparr>cache := snd (lru_get (clock s) key (cache s))\<rparr>) = (Inl err, s2)"
  shows "getCachedOrFetch key fetchFn s =
           (case staleCache s2 key of
              Some staleValue \<Rightarrow> (Inr (data staleValue), s2)
            | None \<Rightarrow> (Inl err, s2))"
  using assms by (auto simp: getCachedOrFetch_def lru_peek_def Let_def split: prod.splits option.splits)

text \<open>
  Claim C7.  When \<open>cache.get\<close> answers an item for the key (the key is present and its
  age is within the time-to-live), \<open>getCachedOrFetch\<close> returns the data of that item and
  its outcome does not depend on the callback at all: the callback is not invoked.  When
  \<open>cache.get\<close> answers nothing (the key is absent or its entry has expired), the callback
  runs once, on the state left by the lookup; if it succeeds with \<open>d\<close>, then \<open>d\<close> is
  returned, the final state is the state the callback left with the new item stored
  under the key in both caches, and from then on \<open>cache.get\<close> for the key answers that
  item exactly as long as no more than \<open>CACHE_TTL\<close> milliseconds have passed.
\<close>

theorem getCachedOrFetch_cache_ttl:
  "(lru_peek (clock s) key (cache s) = Some item \<longrightarrow>
      fst (getCachedOrFetch key fetchFn s) = Inr (data item) \<and>
      getCachedOrFetch key fetchFn s = getCachedOrFetch key otherFn s)
   \<and>
   (lru_peek (clock s) key (cache s) = None \<longrightarrow>
    fetchFn (s\<lparr>cache := snd (lru_get (clock s) key (cache s))\<rparr>) = (Inr d, s2) \<longrightarrow>
      getCachedOrFetch key fetchFn s =
        (Inr d,
         s2\<lparr>cache := lru_set (clock s2) key \<lparr>data = d, timestamp = clock s2\<rparr> (cache s2),
            staleCache := (staleCache s2)(key \<mapsto> \<lparr>data = d, timestamp = clock s2\<rparr>)\<rparr>) \<and>
      (\<forall>t. lru_peek t key (cache (snd (getCachedOrFetch key fetchFn s))) =
            (if t - clock s2 > CACHE_TTL then None else Some \<lparr>data = d, timestamp = clock s2\<rparr>)))"
proof (intro conjI impI)
  assume h: "lru_peek (clock s) key (cache s) = Some item"
  show "fst (getCachedOrFetch key fetchFn s) = Inr (data item)"
    by (simp add: getCachedOrFetch_hit [OF h])
  show "getCachedOrFetch key fetchFn s = getCachedOrFetch key otherFn s"
    by (simp add: getCachedOrFetch_hit [OF h])
next
  assume m: "lru_peek (clock s) key (cache s) = None"
    and f: "fetchFn (s\<lparr>cache := snd (lru_get (clock s) key (cache s))\<rparr>) = (Inr d, s2)"
  show "getCachedOrFetch key fetchFn s =
        (Inr d,
         s2\<lparr>cache := lru_set (clock s2) key \<lparr>data = d, timestamp = clock s2\<rparr> (cache s2),
            staleCache := (staleCache s2)(key \<mapsto> \<lparr>data = d, timestamp = clock s2\<rparr>)\<rparr>)"
    using getCachedOrFetch_computed [of s key fetchFn d s2] m f by simp
  show "\<forall>t. lru_peek t key (cache (snd (getCachedOrFetch key fetchFn s))) =
            (if t - clock s2 > CACHE_TTL then None else Some \<lparr>data = d, timestamp = clock s2\<rparr>)"
    using getCachedOrFetch_computed [of s key fetchFn d s2] m f by (simp add: lru_peek_set)
qed


theorem getCachedOrFetch_cache_ttl_witness:
  "lru_peek (clock (initial_state :: nat state)) ''k'' (cache (initial_state :: nat state)) = None
   \<and> getCachedOrFetch ''k'' ex_fetch initial_state = (Inr 7, ex_cached)
   \<and> requests ex_cached = 1
   \<and> lru_peek 600000 ''k'' (cache ex_cached) = Some \<lparr>data = 7, timestamp = 0\<rparr>
   \<and> lru_peek 600001 ''k'' (cache ex_cached) = None
   \<and> fst (getCachedOrFetch ''k'' ex_fetch (ex_cached\<lparr>clock := 600000\<rparr>)) = Inr 7
   \<and> getCachedOrFetch ''k'' ex_fetch (ex_cached\<lparr>clock := 600000\<rparr>) =
       getCachedOrFetch ''k'' ex_fail (ex_cached\<lparr>clock := 600000\<rparr>)"
proof -
  have miss: "lru_peek (clock (initial_state :: nat state)) ''k'' (cache (initial_state :: nat state)) = None"
    by (simp add: initial_state_def lru_peek_def lru_get_def)
  have run: "ex_fetch ((initial_state :: nat state)
                \<lparr>cache := snd (lru_get (clock (initial_state :: nat state)) ''k''
                                 (cache (initial_state :: nat state)))\<rparr>)
             = (Inr 7, initial_state\<lparr>requests := 1\<rparr>)"
    by (simp add: ex_fetch_def initial_state_def lru_get_def)
  have hit: "lru_peek (clock (ex_cached\<lparr>clock := 600000\<rparr>)) ''k'' (cache (ex_cached\<lparr>clock := 600000\<rparr>))
             = Some \<lparr>data = 7, timestamp = 0\<rparr>"
    by (simp add: ex_cached_def lru_peek_def lru_get_def CACHE_TTL_def)
  from getCachedOrFetch_cache_ttl
         [of initial_state "''k''" "\<lparr>data = 7, timestamp = 0\<rparr>" ex_fetch ex_fetch 7
             "initial_state\<lparr>requests := 1\<rparr>"]
       miss run
  have a: "getCachedOrFetch ''k'' ex_fetch initial_state = (Inr 7, ex_cached)"
    by (simp add: ex_cached_def initial_state_def lru_set_def lru_delete_def CACHE_MAX_def)
  from getCachedOrFetch_cache_ttl
         [of "ex_cached\<lparr>clock := 600000\<rparr>" "''k''" "\<lparr>data = 7, timestamp = 0\<rparr>" ex_fetch ex_fail]
       hit
  have b0: "fst (getCachedOrFetch ''k'' ex_fetch (ex_cached\<lparr>clock := 600000\<rparr>)) =
              Inr (data \<lparr>data = 7 :: nat, timestamp = 0\<rparr>)
           \<and> getCachedOrFetch ''k'' ex_fetch (ex_cached\<lparr>clock := 600000\<rparr>) =
               getCachedOrFetch ''k'' ex_fail (ex_cached\<lparr>clock := 600000\<rparr>)"
    by blast
  have b: "fst (getCachedOrFetch ''k'' ex_fetch (ex_cached\<lparr>clock := 600000\<rparr>)) = Inr 7"
    using b0 [THEN conjunct1] by simp
  note b = b b0 [THEN conjunct2]
  have c: "requests ex_cached = 1
           \<and> lru_peek 600000 ''k'' (cache ex_cached) = Some \<lparr>data = 7, timestamp = 0\<rparr>
           \<and> lru_peek 600001 ''k'' (cache ex_cached) = None"
    by (simp add: ex_cached_def initial_state_def lru_peek_def lru_get_def CACHE_TTL_def)
  from miss a b c show ?thesis by blast
qed

text \<open>
  Claim C6.  Suppose \<open>cache.get\<close> answers nothing for the key, so that the callback runs,
  and the callback throws \<open>err\<close>.  If the stale store then holds an item for the key,
  \<open>getCachedOrFetch\<close> returns the data of that item and no error; if it holds none, the
  same \<open>err\<close> is thrown to the caller.  For a callback that has not written the stale
  entry of the key, the item is the one stored before the call.
\<close>

theorem getCachedOrFetch_stale_fallback:
  assumes "lru_peek (clock s) key (cache s) = None"
    and "fetchFn (s\<lparr>cache := snd (lru_get (clock s) key (cache s))\<rparr>) = (Inl err, s2)"
  shows "(staleCache s2 key = Some staleValue \<longrightarrow>
            getCachedOrFetch key fetchFn s = (Inr (data staleValue), s2))
       \<and> (staleCache s2 key = None \<longrightarrow> getCachedOrFetch key fetchFn s = (Inl err, s2))
       \<and> (staleCache s2 key = staleCache s key \<longrightarrow>
            fst (getCachedOrFetch key fetchFn s) =
              (case staleCache s key of Some v \<Rightarrow> Inr (data v) | None \<Rightarrow> Inl err))"
  using getCachedOrFetch_failed [of s key fetchFn err s2] assms
  by (auto split: option.splits)

theorem getCachedOrFetch_stale_fallback_witness:
  "lru_peek (clock (ex_cached\<lparr>clock := 600001\<rparr>)) ''k'' (cache (ex_cached\<lparr>clock := 600001\<rparr>)) = None
   \<and> getCachedOrFetch ''k'' ex_fail (ex_cached\<lparr>clock := 600001\<rparr>) =
       (Inr 7, ex_cached\<lparr>clock := 600001, cache := [], requests := 2\<rparr>)
   \<and> getCachedOrFetch ''k'' ex_fail initial_state =
       (Inl (NetworkError ''down''), initial_state\<lparr>requests := 1\<rparr>)"
proof -
  let ?s = "ex_cached\<lparr>clock := 600001\<rparr>"
  let ?s2 = "ex_cached\<lparr>clock := 600001, cache := [], requests := 2\<rparr>"
  have miss: "lru_peek (clock ?s) ''k'' (cache ?s) = None"
    by (simp add: ex_cached_def lru_peek_def lru_get_def CACHE_TTL_def)
  have run: "ex_fail (?s\<lparr>cache := snd (lru_get (clock ?s) ''k'' (cache ?s))\<rparr>)
             = (Inl (NetworkError ''down''), ?s2)"
    by (simp add: ex_fail_def ex_cached_def initial_state_def lru_get_def lru_delete_def CACHE_TTL_def)
  have stale: "staleCache ?s2 ''k'' = Some \<lparr>data = 7, timestamp = 0\<rparr>"
    by (simp add: ex_cached_def)
  from getCachedOrFetch_stale_fallback
         [of ?s "''k''" ex_fail "NetworkError ''down''" ?s2 "\<lparr>data = 7, timestamp = 0\<rparr>"]
       miss run stale
  have a: "getCachedOrFetch ''k'' ex_fail ?s = (Inr 7, ?s2)" by simp
  have miss0: "lru_peek (clock (initial_state :: nat state)) ''k'' (cache (initial_state :: nat state)) = None"
    by (simp add: initial_state_def lru_peek_def lru_get_def)
  have run0: "ex_fail ((initial_state :: nat state)
                \<lparr>cache := snd (lru_get (clock (initial_state :: nat state)) ''k''
                                 (cache (initial_state :: nat state)))\<rparr>)
             = (Inl (NetworkError ''down''), initial_state\<lparr>requests := 1\<rparr>)"
    by (simp add: ex_fail_def initial_state_def lru_get_def)
  have stale0: "staleCache ((initial_state :: nat state)\<lparr>requests := 1\<rparr>) ''k'' = None"
    by (simp add: initial_state_def)
  from getCachedOrFetch_stale_fallback
         [of initial_state "''k''" ex_fail "NetworkError ''down''" "initial_state\<lparr>requests := 1\<rparr>"]
       miss0 run0 stale0
  have b: "getCachedOrFetch ''k'' ex_fail initial_state =
             (Inl (NetworkError ''down''), initial_state\<lparr>requests := 1\<rparr>)" by simp
  from miss a b show ?thesis by simp
qed

lemma lru_find_Some_mem: "lru_find k es = Some (v, t) \<Longrightarrow> (k, v, t) \<in> set es"
  by (induction es) (auto split: if_splits)

lemma set_lru_delete: "set (lru_delete k es) \<subseteq> set es"
  by (auto simp: lru_delete_def)

lemma set_lru_get: "set (snd (lru_get t k es)) \<subseteq> set es"
  by (auto simp: lru_get_def lru_delete_def dest: lru_find_Some_mem split: option.splits)

lemma in_lru_set:
  "e \<in> set (lru_set t k v es) \<Longrightarrow> e = (k, v, t) \<or> (e \<in> set es \<and> fst e \<noteq> k)"
  by (auto simp: lru_set_def lru_delete_def dest!: in_set_takeD split: if_splits)

lemma lru_get_Some_mem:
  assumes "lru_get t k es = (Some v, c)"
  shows "\<exists>t0. (k, v, t0) \<in> set es"
proof (cases "lru_find k es")
  case None
  with assms show ?thesis by (simp add: lru_get_def)
next
  case (Some p)
  obtain w t0 where p: "p = (w, t0)" by (cases p)
  with Some assms have "w = v" by (simp add: lru_get_def split: if_splits)
  with Some p show ?thesis using lru_find_Some_mem by blast
qed

lemma cache_in_stale_getCachedOrFetch:
  assumes inv: "cache_in_stale s" and safe: "cache_safe f"
  shows "cache_in_stale (snd (getCachedOrFetch key f s))"
proof (cases "lru_get (clock s) key (cache s)")
  case (Pair r c1)
  have c1: "set c1 \<subseteq> set (cache s)" using set_lru_get [of "clock s" key "cache s"] Pair by simp
  show ?thesis
  proof (cases r)
    case (Some cv)
    then obtain t0 where "(key, cv, t0) \<in> set (cache s)"
      using lru_get_Some_mem Pair by fastforce
    with inv have "staleCache s key = Some cv" by (force simp: cache_in_stale_def)
    moreover have "\<forall>e \<in> set c1. staleCache s (fst e) = Some (fst (snd e))"
      using inv c1 by (auto simp: cache_in_stale_def)
    ultimately show ?thesis using Some Pair
      by (auto simp: getCachedOrFetch_def cache_in_stale_def)
  next
    case None
    let ?s1 = "s\<lparr>cache := c1\<rparr>"
    obtain res s2 where f: "f ?s1 = (res, s2)" by (cases "f ?s1")
    from safe have s2: "cache s2 = c1" "staleCache s2 = staleCache s"
      using f by (auto simp: cache_safe_def dest: spec [where x = ?s1])
    show ?thesis
    proof (cases res)
      case (Inl e)
      with None Pair f s2 inv c1 show ?thesis
        by (auto simp: getCachedOrFetch_def cache_in_stale_def split: option.splits)
    next
      case (Inr d)
      let ?item = "\<lparr>data = d, timestamp = clock s2\<rparr>"
      have res: "snd (getCachedOrFetch key f s) =
                   s2\<lparr>cache := lru_set (clock s2) key ?item c1,
                      staleCache := (staleCache s)(key \<mapsto> ?item)\<rparr>"
        using Inr None Pair f s2 by (simp add: getCachedOrFetch_def Let_def)
      have A: "\<forall>e \<in> set c1. staleCache s (fst e) = Some (fst (snd e))"
        using inv c1 by (auto simp: cache_in_stale_def)
      have "((staleCache s)(key \<mapsto> ?item)) (fst e) = Some (fst (snd e))"
        if "e \<in> set (lru_set (clock s2) key ?item c1)" for e
      proof -
        from in_lru_set [OF that] show ?thesis
        proof
          assume "e = (key, ?item, clock s2)"
          then show ?thesis by simp
        next
          assume "e \<in> set c1 \<and> fst e \<noteq> key"
          with A show ?thesis by simp
        qed
      qed
      then show ?thesis unfolding res by (simp add: cache_in_stale_def)
    qed
  qed
qed

lemma cache_in_stale_delete:
  "cache_in_stale s \<Longrightarrow> cache_in_stale (s\<lparr>cache := lru_delete k (cache s)\<rparr>)"
  by (auto simp: cache_in_stale_def lru_delete_def)

lemma cache_in_stale_cong:
  "cache_in_stale s \<Longrightarrow> set (cache s') \<subseteq> set (cache s) \<Longrightarrow> staleCache s' = staleCache s \<Longrightarrow>
   cache_in_stale s'"
  by (auto simp: cache_in_stale_def)

lemma saveTweets_caches:
  "set (cache (snd (saveTweetsToDatabase fl td pid s))) \<subseteq> set (cache s)"
  "staleCache (snd (saveTweetsToDatabase fl td pid s)) = staleCache s"
  by (auto simp: saveTweetsToDatabase_def lru_delete_def split: prod.splits sum.splits)

lemma checkAndFix_caches:
  "set (cache (snd (checkAndFixTwitterHandles fl s))) \<subseteq> set (cache s)"
  "staleCache (snd (checkAndFixTwitterHandles fl s)) = staleCache s"
  by (auto simp: checkAndFixTwitterHandles_def lru_delete_def split: prod.splits sum.splits)

lemma getCachedOrFetch_stale_of_result:
  assumes "getCachedOrFetch key f s = (Inr v, s')"
  shows "\<exists>item. staleCache s' key = Some item \<and> data item = v"
  using assms
  by (auto simp: getCachedOrFetch_def Let_def split: prod.splits option.splits sum.splits)

lemma getCachedOrFetch_stale_other:
  assumes "cache_safe f" and "k \<noteq> key"
  shows "staleCache (snd (getCachedOrFetch key f s)) k = staleCache s k"
proof -
  let ?s1 = "s\<lparr>cache := snd (lru_get (clock s) key (cache s))\<rparr>"
  have "staleCache (snd (f ?s1)) = staleCache s"
    using assms(1) by (simp add: cache_safe_def)
  then show ?thesis using assms(2)
    by (auto simp: getCachedOrFetch_def Let_def split: prod.splits option.splits sum.splits)
qed

lemma getCachedOrFetch_stale_thrown:
  assumes "cache_safe f" and "getCachedOrFetch key f s = (Inl e, s')"
  shows "staleCache s' = staleCache s"
proof -
  let ?s1 = "s\<lparr>cache := snd (lru_get (clock s) key (cache s))\<rparr>"
  have "staleCache (snd (f ?s1)) = staleCache s"
    using assms(1) by (simp add: cache_safe_def)
  then show ?thesis using assms(2)
    by (auto simp: getCachedOrFetch_def Let_def split: prod.splits option.splits sum.splits)
qed

text \<open>
  Claim C10.  In every state the cache pair can reach, each entry of the primary cache
  has its key in the stale store with the same item, and for every key the stale store
  holds an item whose data is the value most recently returned for that key.
\<close>

theorem cache_pair_invariant:
  assumes "served s ret"
  shows "cache_in_stale s \<and> stale_is_last s ret"
  using assms
proof (induction rule: served.induct)
  case (start s)
  then show ?case by (simp add: cache_in_stale_def stale_is_last_def)
next
  case (returned s ret f key v s')
  have 1: "cache_in_stale s'"
    using cache_in_stale_getCachedOrFetch [of s f key] returned by simp
  have 2: "stale_is_last s' (ret(key \<mapsto> v))"
    unfolding stale_is_last_def
  proof (intro allI impI)
    fix k w assume kw: "(ret(key \<mapsto> v)) k = Some w"
    show "\<exists>item. staleCache s' k = Some item \<and> data item = w"
    proof (cases "k = key")
      case True
      with kw getCachedOrFetch_stale_of_result [OF returned(3)] show ?thesis by simp
    next
      case False
      with kw returned have "\<exists>item. staleCache s k = Some item \<and> data item = w"
        by (simp add: stale_is_last_def)
      moreover have "staleCache s' k = staleCache s k"
        using getCachedOrFetch_stale_other [OF returned(2) False, of s] returned(3) by simp
      ultimately show ?thesis by simp
    qed
  qed
  from 1 2 show ?case ..
next
  case (thrown s ret f key e s')
  have "cache_in_stale s'"
    using cache_in_stale_getCachedOrFetch [of s f key] thrown by simp
  moreover have "staleCache s' = staleCache s"
    by (rule getCachedOrFetch_stale_thrown [OF thrown(2,3)])
  ultimately show ?case using thrown by (simp add: stale_is_last_def)
next
  case (invalidated s ret k)
  then show ?case by (simp add: cache_in_stale_delete stale_is_last_def)
next
  case (tweets_saved s ret fl tweetData politicianId)
  then have "cache_in_stale (snd (saveTweetsToDatabase fl tweetData politicianId s))"
    using cache_in_stale_cong [OF _ saveTweets_caches] by blast
  with tweets_saved show ?case
    by (simp add: stale_is_last_def saveTweets_caches(2))
next
  case (handles_fixed s ret fl)
  then have "cache_in_stale (snd (checkAndFixTwitterHandles fl s))"
    using cache_in_stale_cong [OF _ checkAndFix_caches] by blast
  with handles_fixed show ?case
    by (simp add: stale_is_last_def checkAndFix_caches(2))
next
  case (elsewhere s ret s')
  then show ?case by (simp add: cache_in_stale_def stale_is_last_def)
qed


theorem cache_pair_invariant_witness:
  "served ex_cached [''k'' \<mapsto> 7]
   \<and> cache_in_stale ex_cached
   \<and> stale_is_last ex_cached [''k'' \<mapsto> 7]
   \<and> cache ex_cached = [(''k'', \<lparr>data = 7, timestamp = 0\<rparr>, 0)]
   \<and> staleCache ex_cached ''k'' = Some \<lparr>data = 7, timestamp = 0\<rparr>"
proof -
  have 0: "served (initial_state :: nat state) Map.empty"
    by (rule served.start) (simp_all add: initial_state_def)
  have safe: "cache_safe ex_fetch"
    by (simp add: cache_safe_def ex_fetch_def)
  have run: "getCachedOrFetch ''k'' ex_fetch initial_state = (Inr 7, ex_cached)"
    by (simp add: getCachedOrFetch_def ex_fetch_def ex_cached_def initial_state_def
        lru_get_def lru_set_def lru_delete_def CACHE_MAX_def Let_def)
  have 1: "served ex_cached [''k'' \<mapsto> 7]"
    using served.returned [OF 0 safe run] by simp
  from cache_pair_invariant [OF 1] show ?thesis
    using 1 by (simp add: ex_cached_def)
qed


section \<open>The fetch client: retries and failures\<close>

lemma requests_quota_wait [simp]: "requests (quota_wait s) = requests s"
  by (simp add: quota_wait_def sleep_def)


lemma requests_answered_issue [simp]:
  "requests (answered now r (issue url s)) = requests s + 1"
  by (simp add: answered_def issue_def update_rate_limit_def)

lemma trace_answered_issue [simp]:
  "trace (answered now r (issue url s)) = trace s @ [Request url]"
  by (simp add: answered_def issue_def update_rate_limit_def)

lemma requests_sleep [simp]: "requests (sleep ms s) = requests s"
  by (simp add: sleep_def)

lemma trace_sleep [simp]: "trace (sleep ms s) = trace s @ [Sleep ms]"
  by (simp add: sleep_def)




lemma rateLimitedFetch_answer:
  assumes "net (requests s) url = Inr r" and "status r \<noteq> 429"
  shows "rateLimitedFetch net url k s = (Inr r, answered (clock s) r (issue url (quota_wait s)))"
  using assms by (subst rateLimitedFetch.simps) (simp add: Let_def)

lemma rateLimitedFetch_rejected:
  assumes "net (requests s) url = Inl e"
  shows "rateLimitedFetch net url k s = (Inl e, issue url (quota_wait s))"
  using assms by (subst rateLimitedFetch.simps) (simp add: Let_def)

lemma requests_retried [simp]: "requests (retried url r k s) = requests s + 1"
  by (simp add: retried_def)



lemma retry_delay_cases:
  "retry_delay r k =
     (case retry_after r of
        None \<Rightarrow> Some (5000 * 2 ^ k)
      | Some str \<Rightarrow> if str = [] then Some (5000 * 2 ^ k)
                    else map_option (\<lambda>n. n * 1000) (parseInt str))"
  by (simp add: retry_delay_def truthy_def INITIAL_RETRY_DELAY_def split: option.splits)




lemma user_lookup_never_throws: "\<exists>v. fst (user_lookup api_key net u s) = Inr v"
  by (auto simp: user_lookup_def split: prod.splits sum.splits)

lemma getCachedOrFetch_total:
  assumes "\<And>x. \<exists>v. fst (f x) = Inr v"
  shows "\<exists>v. fst (getCachedOrFetch key f s) = Inr v"
proof (cases "lru_get (clock s) key (cache s)")
  case (Pair r c1)
  show ?thesis
  proof (cases r)
    case (Some cv)
    with Pair show ?thesis by (simp add: getCachedOrFetch_def)
  next
    case None
    obtain v where "fst (f (s\<lparr>cache := c1\<rparr>)) = Inr v" using assms by blast
    with None Pair show ?thesis
      by (cases "f (s\<lparr>cache := c1\<rparr>)") (simp add: getCachedOrFetch_def Let_def)
  qed
qed

lemma getUserIdFromUsername_never_throws:
  "\<exists>v. fst (getUserIdFromUsername api_key net username s) = Inr v"
  unfolding getUserIdFromUsername_def
  using getCachedOrFetch_total [of "user_lookup api_key net (cleanUsername username)", OF user_lookup_never_throws]
  by auto

lemma scan_errors_Inr: "scan_errors es = Some (Inr v) \<Longrightarrow> v = None"
  by (induction es) (auto split: if_splits)

lemma user_lookup_try_single_answer:
  assumes "truthy api_key"
    and "net (requests s) (user_url u) = Inr r"
    and "status r \<noteq> 429"
  shows "snd (user_lookup_try api_key net u s) = answered (clock s) r (issue (user_url u) (quota_wait s))"
    and "\<not> ok r \<Longrightarrow> fst (user_lookup_try api_key net u s) \<noteq> Inr (Some v)"
proof -
  have rl: "rateLimitedFetch net (user_url u) 0 s =
              (Inr r, answered (clock s) r (issue (user_url u) (quota_wait s)))"
    using assms(2,3)
      rateLimitedFetch_answer [where net = net and s = s and r = r and k = 0 and url = "user_url u"]
    by simp
  show "snd (user_lookup_try api_key net u s) = answered (clock s) r (issue (user_url u) (quota_wait s))"
    using assms(1) rl
    by (auto simp: user_lookup_try_def split: body.splits option.splits list.splits)
  show "fst (user_lookup_try api_key net u s) \<noteq> Inr (Some v)" if "\<not> ok r"
    using assms(1) rl that
    by (auto simp: user_lookup_try_def split: body.splits option.splits list.splits
        dest: scan_errors_Inr)
qed

lemma user_lookup_single_answer:
  assumes "truthy api_key"
    and "net (requests s) (user_url u) = Inr r"
    and "status r \<noteq> 429"
  shows "requests (snd (user_lookup api_key net u s)) = requests s + 1"
    and "\<not> ok r \<Longrightarrow> fst (user_lookup api_key net u s) = Inr None"
proof -
  obtain res s2 where t: "user_lookup_try api_key net u s = (res, s2)"
    by (cases "user_lookup_try api_key net u s")
  have s2: "s2 = answered (clock s) r (issue (user_url u) (quota_wait s))"
    using user_lookup_try_single_answer(1) [where api_key = api_key and net = net and s = s
        and u = u and r = r] assms t by simp
  show "requests (snd (user_lookup api_key net u s)) = requests s + 1"
    using t s2 by (cases res) (simp_all add: user_lookup_def)
  show "fst (user_lookup api_key net u s) = Inr None" if "\<not> ok r"
  proof (cases res)
    case (Inl e)
    with t show ?thesis by (simp add: user_lookup_def)
  next
    case (Inr v)
    have "res \<noteq> Inr (Some w)" for w
      using user_lookup_try_single_answer(2) [where api_key = api_key and net = net and s = s
          and u = u and r = r and v = w] assms t that by simp
    with Inr have "v = None" by (cases v) auto
    with Inr t show ?thesis by (simp add: user_lookup_def)
  qed
qed

lemma getCachedOrFetch_miss_result:
  assumes "lru_peek (clock s) key (cache s) = None"
  shows "fst (getCachedOrFetch key f s) =
           (case f (s\<lparr>cache := snd (lru_get (clock s) key (cache s))\<rparr>) of
              (Inr d, s2) \<Rightarrow> Inr d
            | (Inl err, s2) \<Rightarrow>
                (case staleCache s2 key of Some sv \<Rightarrow> Inr (data sv) | None \<Rightarrow> Inl err))"
    and "requests (snd (getCachedOrFetch key f s)) =
           requests (snd (f (s\<lparr>cache := snd (lru_get (clock s) key (cache s))\<rparr>)))"
  using assms
  by (auto simp: getCachedOrFetch_def lru_peek_def Let_def split: prod.splits option.splits sum.splits)

text \<open>
  Claim C5, as amended.  \<open>getUserIdFromUsername\<close> never throws.  When the lookup is not
  served from the cache, the API key is set and the first response is not a rate-limit
  response, exactly one outbound call is made (nothing is retried), and every response
  that is not a success, the not-found response and the authorization failure alike,
  yields \<open>null\<close>: the error the callback throws is caught by the callback itself.
\<close>

theorem getUserIdFromUsername_failure_semantics:
  "(\<exists>v. fst (getUserIdFromUsername api_key net username s) = Inr v)
   \<and> (cleanUsername username \<noteq> [] \<longrightarrow>
      lru_peek (clock s) (''twitter_user_'' @ toLowerCase (cleanUsername username)) (cache s) = None \<longrightarrow>
      truthy api_key \<longrightarrow>
      net (requests s) (user_url (cleanUsername username)) = Inr r \<longrightarrow>
      status r \<noteq> 429 \<longrightarrow>
        requests (snd (getUserIdFromUsername api_key net username s)) = requests s + 1
        \<and> (\<not> ok r \<longrightarrow> fst (getUserIdFromUsername api_key net username s) = Inr None))"
proof (intro conjI impI)
  show "\<exists>v. fst (getUserIdFromUsername api_key net username s) = Inr v"
    by (rule getUserIdFromUsername_never_throws)
next
  let ?u = "cleanUsername username"
  let ?key = "''twitter_user_'' @ toLowerCase ?u"
  let ?s1 = "s\<lparr>cache := snd (lru_get (clock s) ?key (cache s))\<rparr>"
  assume clean: "?u \<noteq> []"
    and miss: "lru_peek (clock s) ?key (cache s) = None"
    and k: "truthy api_key"
    and n: "net (requests s) (user_url ?u) = Inr r"
    and st: "status r \<noteq> 429"
  have n1: "net (requests ?s1) (user_url ?u) = Inr r"
    using n by simp
  show "requests (snd (getUserIdFromUsername api_key net username s)) = requests s + 1"
    using clean getCachedOrFetch_miss_result(2) [OF miss, of "user_lookup api_key net ?u"]
      user_lookup_single_answer(1) [where api_key = api_key and net = net and s = ?s1 and u = ?u and r = r]
      k n1 st
    by (simp add: getUserIdFromUsername_def)
  assume nok: "\<not> ok r"
  obtain s2 where "user_lookup api_key net ?u ?s1 = (Inr None, s2)"
    using user_lookup_single_answer(2) [where api_key = api_key and net = net and s = ?s1 and u = ?u and r = r]
      k n1 st nok
    by (cases "user_lookup api_key net ?u ?s1") simp
  then show "fst (getUserIdFromUsername api_key net username s) = Inr None"
    using clean getCachedOrFetch_miss_result(1) [OF miss, of "user_lookup api_key net ?u"]
    by (simp add: getUserIdFromUsername_def)
qed

theorem getUserIdFromUsername_failure_semantics_witness:
  "cleanUsername ''JohnDoe'' \<noteq> []
   \<and> truthy (Some ''key'')
   \<and> status ex_404 \<noteq> 429 \<and> \<not> ok ex_404
   \<and> requests (snd (getUserIdFromUsername (Some ''key'') ex_net_404 ''JohnDoe'' initial_state)) = 1
   \<and> fst (getUserIdFromUsername (Some ''key'') ex_net_404 ''JohnDoe'' initial_state) = Inr None"
proof -
  let ?s = "initial_state :: (string option) state"
  have c: "cleanUsername ''JohnDoe'' \<noteq> []" by code_simp
  have m: "lru_peek (clock ?s) (''twitter_user_'' @ toLowerCase (cleanUsername ''JohnDoe'')) (cache ?s) = None"
    by (simp add: initial_state_def lru_peek_def lru_get_def)
  have k: "truthy (Some ''key'')" by (simp add: truthy_def)
  have n: "ex_net_404 (requests ?s) (user_url (cleanUsername ''JohnDoe'')) = Inr ex_404"
    by (simp add: ex_net_404_def)
  have st: "status ex_404 \<noteq> 429" "\<not> ok ex_404" by (simp_all add: ex_404_def ok_def)
  have r0: "requests ?s = 0" by (simp add: initial_state_def)
  from getUserIdFromUsername_failure_semantics
         [of "Some ''key''" ex_net_404 "''JohnDoe''" ?s ex_404] c m k n st r0
  have "requests (snd (getUserIdFromUsername (Some ''key'') ex_net_404 ''JohnDoe'' ?s)) = 1
        \<and> fst (getUserIdFromUsername (Some ''key'') ex_net_404 ''JohnDoe'' ?s) = Inr None"
    by simp
  with c k st show ?thesis by blast
qed

text \<open>
  Claim C5 as stated fails on an authorization failure: the body of the callback's
  \<open>try\<close> block throws the authorization error, and \<open>getUserIdFromUsername\<close> returns
  \<open>null\<close> to its caller instead of that error.
\<close>

theorem getUserIdFromUsername_authorization_counterexample:
  "fst (user_lookup_try (Some ''key'') ex_net_401 ''JohnDoe'' (initial_state :: (string option) state))
     = Inl AuthorizationFailed
   \<and> fst (getUserIdFromUsername (Some ''key'') ex_net_401 ''JohnDoe'' initial_state) = Inr None
   \<and> fst (getUserIdFromUsername (Some ''key'') ex_net_401 ''JohnDoe'' initial_state)
       \<noteq> Inl AuthorizationFailed"
  by code_simp

section \<open>Tweets: insertion without duplicates\<close>

lemma save_tweets_try_ok:
  assumes "save_tweets_try fl td pid c0 = (Inr n, c)" and "pending c0 = None"
  shows "durable c = (durable c0)\<lparr>tweets := tweets (durable c0) @
            map (tweet_of pid) (filter (\<lambda>t. tw_id t \<notin> stored_ids pid (durable c0)) td)\<rparr>"
    and "n = length (filter (\<lambda>t. tw_id t \<notin> stored_ids pid (durable c0)) td)"
    and "sent c = sent c0 @
           (if filter (\<lambda>t. tw_id t \<notin> stored_ids pid (durable c0)) td = []
            then [Begin, SelectTweetIds, Commit]
            else [Begin, SelectTweetIds, InsertTweets, Commit])"
    and "pending c = None"
proof -
  note f = stored_ids_def
  have tw: "(\<lambda>tweet. \<lparr>tweet_id = tw_id tweet, t_politician_id = pid, t_text = tw_text tweet,
                       t_created_at = tw_created_at tweet\<rparr>) = tweet_of pid"
    by (simp add: tweet_of_def fun_eq_iff)
  note defs = save_tweets_try_def pg_begin_def pg_send_def pg_view_def pg_write_def pg_commit_def Let_def
  show "durable c = (durable c0)\<lparr>tweets := tweets (durable c0) @
            map (tweet_of pid) (filter (\<lambda>t. tw_id t \<notin> stored_ids pid (durable c0)) td)\<rparr>"
    using assms by (auto simp: defs f tw split: if_splits)
  show "n = length (filter (\<lambda>t. tw_id t \<notin> stored_ids pid (durable c0)) td)"
    using assms by (auto simp: defs f tw split: if_splits)
  show "sent c = sent c0 @
           (if filter (\<lambda>t. tw_id t \<notin> stored_ids pid (durable c0)) td = []
            then [Begin, SelectTweetIds, Commit]
            else [Begin, SelectTweetIds, InsertTweets, Commit])"
    using assms by (auto simp: defs f tw split: if_splits)
  show "pending c = None"
    using assms by (auto simp: defs f tw split: if_splits)
qed

lemma save_tweets_try_fail:
  assumes "save_tweets_try fl td pid c0 = (Inl e, c)" and "pending c0 = None"
  shows "durable c = durable c0"
  using assms
  by (auto simp: save_tweets_try_def pg_begin_def pg_send_def pg_view_def pg_write_def
      pg_commit_def Let_def split: if_splits)

lemma saveTweetsToDatabase_ok:
  assumes "saveTweetsToDatabase fl td pid s = (Inr n, s')"
  shows "database s' = (database s)\<lparr>tweets := tweets (database s) @
            map (tweet_of pid) (filter (\<lambda>t. tw_id t \<notin> stored_ids pid (database s)) td)\<rparr>"
    and "n = length (filter (\<lambda>t. tw_id t \<notin> stored_ids pid (database s)) td)"
    and "queries s' = queries s @
           (if td = [] then []
            else if filter (\<lambda>t. tw_id t \<notin> stored_ids pid (database s)) td = []
            then [Begin, SelectTweetIds, Commit]
            else [Begin, SelectTweetIds, InsertTweets, Commit])"
proof -
  let ?c0 = "\<lparr>durable = database s, pending = None, sent = []\<rparr>"
  show "database s' = (database s)\<lparr>tweets := tweets (database s) @
            map (tweet_of pid) (filter (\<lambda>t. tw_id t \<notin> stored_ids pid (database s)) td)\<rparr>"
  proof (cases "td = []")
    case True
    with assms show ?thesis by (simp add: saveTweetsToDatabase_def)
  next
    case False
    with assms obtain c where c: "save_tweets_try fl td pid ?c0 = (Inr n, c)" "database s' = durable c"
      by (auto simp: saveTweetsToDatabase_def split: if_splits prod.splits sum.splits)
    from save_tweets_try_ok(1) [OF c(1)] c(2) show ?thesis by simp
  qed
  show "n = length (filter (\<lambda>t. tw_id t \<notin> stored_ids pid (database s)) td)"
  proof (cases "td = []")
    case True
    with assms show ?thesis by (simp add: saveTweetsToDatabase_def)
  next
    case False
    with assms obtain c where c: "save_tweets_try fl td pid ?c0 = (Inr n, c)"
      by (auto simp: saveTweetsToDatabase_def split: if_splits prod.splits sum.splits)
    from save_tweets_try_ok(2) [OF c] show ?thesis by simp
  qed
  show "queries s' = queries s @
           (if td = [] then []
            else if filter (\<lambda>t. tw_id t \<notin> stored_ids pid (database s)) td = []
            then [Begin, SelectTweetIds, Commit]
            else [Begin, SelectTweetIds, InsertTweets, Commit])"
  proof (cases "td = []")
    case True
    with assms show ?thesis by (simp add: saveTweetsToDatabase_def)
  next
    case False
    with assms obtain c where c: "save_tweets_try fl td pid ?c0 = (Inr n, c)"
       "queries s' = queries s @ sent c"
      by (auto simp: saveTweetsToDatabase_def split: if_splits prod.splits sum.splits)
    from save_tweets_try_ok(3) [OF c(1)] c(2) False show ?thesis by simp
  qed
qed

lemma saveTweetsToDatabase_fail:
  assumes "saveTweetsToDatabase fl td pid s = (Inl e, s')"
  shows "database s' = database s"
proof -
  let ?c0 = "\<lparr>durable = database s, pending = None, sent = []\<rparr>"
  from assms have "(fl GetClient \<and> s' = s) \<or>
      (\<exists>c. save_tweets_try fl td pid ?c0 = (Inl e, c) \<and> database s' = durable (pg_rollback c))"
    by (auto simp: saveTweetsToDatabase_def split: if_splits prod.splits sum.splits)
  then show ?thesis
    using save_tweets_try_fail [of fl td pid ?c0 e]
    by (auto simp: pg_rollback_def pg_send_def)
qed













section \<open>The handle fix-up\<close>





lemma split_aux_nonempty: "split_aux sep acc s \<noteq> []"
  by (induction sep acc s rule: split_aux.induct) auto




lemma set_last_split_aux: "set (last (split_aux sep acc s)) \<subseteq> set acc \<union> set s"
proof (induction sep acc s rule: split_aux.induct)
  case (1 sep acc)
  then show ?case by simp
next
  case (2 sep acc c cs)
  show ?case
  proof (cases "sep \<noteq> [] \<and> prefix sep (c # cs)")
    case True
    with 2(1) have "set (last (split_aux sep [] (drop (length sep) (c # cs)))) \<subseteq> set (drop (length sep) (c # cs))"
      by simp
    then have "set (last (split_aux sep [] (drop (length sep) (c # cs)))) \<subseteq> set (c # cs)"
      using set_drop_subset by fastforce
    with True show ?thesis by (auto simp: split_aux_nonempty)
  next
    case False
    with 2(2) show ?thesis by auto
  qed
qed





































lemma check_fix_try_fail:
  assumes "check_fix_try fl c0 = (Inl e, c)" and "pending c0 = None"
  shows "durable c = durable c0"
  using assms
  by (auto simp: check_fix_try_def pg_begin_def pg_send_def pg_view_def pg_write_def
      pg_commit_def Let_def split: if_splits)



lemma checkAndFixTwitterHandles_fail:
  assumes "checkAndFixTwitterHandles fl s = (Inl e, s')"
  shows "database s' = database s"
proof -
  let ?c0 = "\<lparr>durable = database s, pending = None, sent = []\<rparr>"
  from assms have "(fl GetClient \<and> s' = s) \<or>
      (\<exists>c. check_fix_try fl ?c0 = (Inl e, c) \<and> database s' = durable (pg_rollback c))"
    by (auto simp: checkAndFixTwitterHandles_def split: if_splits prod.splits sum.splits)
  then show ?thesis
    using check_fix_try_fail [of fl ?c0 e]
    by (auto simp: pg_rollback_def pg_send_def)
qed






section \<open>Votes: upsert, uniqueness and failures\<close>

lemma upsertVote_Inr:
  assumes "upsertVote fl now sid pid v d = (Inr b, d')"
  shows "b" and "d' = upsert_vote now sid pid v d"
  using assms
  by (auto simp: upsertVote_def upsert_vote_def vote_find_def new_vote_def count_vote_def Let_def
      split: if_splits option.splits)

lemma upsertVote_Inl:
  assumes "upsertVote fl now sid pid v d = (Inl e, d')"
  shows "e = FailedToSaveVote"
  using assms
  by (auto simp: upsertVote_def Let_def split: if_splits option.splits)

lemma saveVote_split:
  "saveVote fl now sid name party v d =
     (if fl SelectPolitician then (Inl FailedToSaveVote, d)
      else if (case pol_find name d of None \<Rightarrow> fl InsertPolitician | Some p \<Rightarrow> fl UpdatePoliticianParty)
      then (Inl FailedToSaveVote, d)
      else upsertVote fl now sid (politician_for name d) v (upsert_politician now name party d))"
  by (simp add: saveVote_def pol_find_def politician_for_def upsert_politician_def split: option.splits)

lemma saveVote_Inr:
  assumes "saveVote fl now sid name party v d = (Inr b, d')"
  shows "b" and "d' = upsert_vote now sid (politician_for name d) v (upsert_politician now name party d)"
  using assms upsertVote_Inr [of fl now sid "politician_for name d" v "upsert_politician now name party d" b d']
  by (auto simp: saveVote_split split: if_splits)

lemma saveVote_Inl:
  assumes "saveVote fl now sid name party v d = (Inl e, d')"
  shows "e = FailedToSaveVote"
  using assms upsertVote_Inl [of fl now sid "politician_for name d" v "upsert_politician now name party d" e d']
  by (auto simp: saveVote_split split: if_splits)

lemma saveVote_no_faults:
  "saveVote no_faults now sid name party v d =
     (Inr True, upsert_vote now sid (politician_for name d) v (upsert_politician now name party d))"
  by (auto simp: saveVote_split no_faults_def upsertVote_def upsert_vote_def vote_find_def
      new_vote_def count_vote_def Let_def split: option.splits)

lemma votes_upsert_politician [simp]:
  "votes (upsert_politician now name party d) = votes d"
  "votes_seq (upsert_politician now name party d) = votes_seq d"
  "voting_sessions (upsert_politician now name party d) = voting_sessions d"
  "tweets (upsert_politician now name party d) = tweets d"
  by (simp_all add: upsert_politician_def split: option.splits)

lemma vote_find_upsert_politician [simp]:
  "vote_find sid pid (upsert_politician now name party d) = vote_find sid pid d"
  by (simp add: vote_find_def)

lemma find_Some_props: "find P xs = Some x \<Longrightarrow> P x \<and> x \<in> set xs"
  by (induction xs) (auto split: if_splits)

lemma map_pair_update:
  "map (\<lambda>v. (v_politician_id v, v_session_id v))
     (map (\<lambda>r. if vote_id r = n then r\<lparr>v_vote := v\<rparr> else r) xs) =
   map (\<lambda>v. (v_politician_id v, v_session_id v)) xs"
  by (induction xs) auto

lemma votes_unique_upsert_vote:
  assumes "votes_unique d"
  shows "votes_unique (upsert_vote now sid pid v d)"
proof (cases "vote_find sid pid d")
  case None
  then have "(pid, sid) \<notin> (\<lambda>v. (v_politician_id v, v_session_id v)) ` set (votes d)"
    by (auto simp: vote_find_def find_None_iff)
  with assms None show ?thesis
    by (simp add: upsert_vote_def votes_unique_def new_vote_def)
next
  case (Some ev)
  with assms show ?thesis
    by (simp add: upsert_vote_def votes_unique_def map_pair_update del: map_map)
qed

lemma upsertVote_fault_state:
  "votes (snd (upsertVote fl now sid pid v d)) = votes d
   \<or> votes (snd (upsertVote fl now sid pid v d)) = votes (upsert_vote now sid pid v d)"
  by (auto simp: upsertVote_def upsert_vote_def vote_find_def new_vote_def Let_def
      split: option.splits)

lemma saveVote_votes:
  "votes (snd (saveVote fl now sid name party v d)) = votes d
   \<or> votes (snd (saveVote fl now sid name party v d)) =
       votes (upsert_vote now sid (politician_for name d) v d)"
proof -
  have "votes (upsert_vote now sid pid v (upsert_politician now name party d)) =
        votes (upsert_vote now sid pid v d)" for pid
    by (simp add: upsert_vote_def new_vote_def split: option.splits)
  then show ?thesis
    using upsertVote_fault_state [of fl now sid "politician_for name d" v "upsert_politician now name party d"]
    by (auto simp: saveVote_split)
qed

lemma votes_unique_saveVote:
  assumes "votes_unique d"
  shows "votes_unique (snd (saveVote fl now sid name party v d))"
  using saveVote_votes [of fl now sid name party v d] assms
    votes_unique_upsert_vote [OF assms, of now sid "politician_for name d" v]
  by (auto simp: votes_unique_def)

lemma votes_saveVotingSession [simp]:
  "votes (snd (saveVotingSession fl now a b c d)) = votes d"
  by (simp add: saveVotingSession_def split: option.splits)

lemma reachable_votes_unique: "reachable_db d \<Longrightarrow> votes_unique d"
proof (induction rule: reachable_db.induct)
  case empty
  then show ?case by (simp add: votes_unique_def empty_db_def)
next
  case (session d fl now sessionId title date)
  then show ?case by (simp add: votes_unique_def)
next
  case (vote d fl now sessionId politicianName party v)
  from vote(2) show ?case by (rule votes_unique_saveVote)
next
  case (tweets s fl tweetData politicianId)
  obtain r s' where r: "saveTweetsToDatabase fl tweetData politicianId s = (r, s')"
    by (cases "saveTweetsToDatabase fl tweetData politicianId s")
  have "votes (database s') = votes (database s)"
    using r saveTweetsToDatabase_ok(1) [of fl tweetData politicianId s _ s']
      saveTweetsToDatabase_fail [of fl tweetData politicianId s _ s']
    by (cases r) auto
  with tweets r show ?case by (simp add: votes_unique_def)
next
  case (handles s fl)
  have "votes (database (snd (checkAndFixTwitterHandles fl s))) = votes (database s)"
    by (auto simp: checkAndFixTwitterHandles_def check_fix_try_def pg_begin_def pg_send_def
        pg_view_def pg_write_def pg_commit_def pg_rollback_def apply_handle_updates_def Let_def
        split: prod.splits sum.splits if_splits)
  with handles show ?case by (simp add: votes_unique_def)
qed


lemma find_map_same:
  assumes "\<And>x. P (g x) = P x"
  shows "find P (map g xs) = map_option g (find P xs)"
  using assms by (induction xs) auto

lemma vote_find_after_update:
  assumes "vote_find sid pid d = Some ev"
  shows "vote_find sid pid (upsert_vote now sid pid v d) = Some (ev\<lparr>v_vote := v\<rparr>)"
proof -
  let ?g = "\<lambda>r. if vote_id r = vote_id ev then r\<lparr>v_vote := v\<rparr> else r"
  have "find (\<lambda>r. v_session_id r = sid \<and> v_politician_id r = pid) (map ?g (votes d)) =
        map_option ?g (find (\<lambda>r. v_session_id r = sid \<and> v_politician_id r = pid) (votes d))"
    by (rule find_map_same) simp
  with assms show ?thesis by (simp add: upsert_vote_def vote_find_def)
qed

text \<open>
  Claim C2.  When \<open>saveVote\<close> returns, and no Vote row exists for the politician and the
  session, the votes table has grown by exactly one row, which holds the given vote, and
  \<open>vote_count\<close> has grown by one in the rows of the session and in no other row; when a
  row exists, the votes table has the same rows but for the vote of that row, which is
  the given one, and no \<open>vote_count\<close> has changed.  Whatever statement fails, a call
  of \<open>saveVote\<close> keeps the pairs of politician and session of the votes table distinct,
  and they are distinct in every database reached from the empty one.
\<close>

theorem saveVote_upsert:
  "(saveVote fl now sessionId politicianName party vote d = (Inr b, d') \<longrightarrow>
      (vote_find sessionId (politician_for politicianName d) d = None \<longrightarrow>
         votes d' = votes d @ [new_vote now sessionId (politician_for politicianName d) vote d]
         \<and> v_vote (new_vote now sessionId (politician_for politicianName d) vote d) = vote
         \<and> voting_sessions d' =
             map (\<lambda>r. if vs_id r = sessionId then r\<lparr>vote_count := vote_count r + 1\<rparr> else r)
               (voting_sessions d))
      \<and> (vote_find sessionId (politician_for politicianName d) d = Some existingVote \<longrightarrow>
         votes d' = map (\<lambda>r. if vote_id r = vote_id existingVote then r\<lparr>v_vote := vote\<rparr> else r)
                      (votes d)
         \<and> length (votes d') = length (votes d)
         \<and> vote_find sessionId (politician_for politicianName d) d' =
             Some (existingVote\<lparr>v_vote := vote\<rparr>)
         \<and> voting_sessions d' = voting_sessions d))
   \<and> (votes_unique d \<longrightarrow>
        votes_unique (snd (saveVote fl now sessionId politicianName party vote d)))
   \<and> (reachable_db d \<longrightarrow> votes_unique d)"
proof (intro conjI impI)
  let ?pid = "politician_for politicianName d"
  let ?d1 = "upsert_politician now politicianName party d"
  assume ok: "saveVote fl now sessionId politicianName party vote d = (Inr b, d')"
  note d' = saveVote_Inr(2) [OF ok]
  {
    assume n: "vote_find sessionId ?pid d = None"
    show "votes d' = votes d @ [new_vote now sessionId ?pid vote d]"
      using n by (simp add: d' upsert_vote_def new_vote_def)
    show "v_vote (new_vote now sessionId ?pid vote d) = vote"
      by (simp add: new_vote_def)
    show "voting_sessions d' =
             map (\<lambda>r. if vs_id r = sessionId then r\<lparr>vote_count := vote_count r + 1\<rparr> else r)
               (voting_sessions d)"
      using n by (simp add: d' upsert_vote_def count_vote_def)
  }
  {
    assume e: "vote_find sessionId ?pid d = Some existingVote"
    show v: "votes d' = map (\<lambda>r. if vote_id r = vote_id existingVote then r\<lparr>v_vote := vote\<rparr> else r)
                      (votes d)"
      using e by (simp add: d' upsert_vote_def)
    show "length (votes d') = length (votes d)" unfolding v by simp
    have e1: "vote_find sessionId ?pid ?d1 = Some existingVote" using e by simp
    have "vote_find sessionId ?pid d' = Some (existingVote\<lparr>v_vote := vote\<rparr>)"
      unfolding d' by (rule vote_find_after_update [OF e1])
    then show "vote_find sessionId ?pid d' = Some (existingVote\<lparr>v_vote := vote\<rparr>)" .
    show "voting_sessions d' = voting_sessions d"
      using e by (simp add: d' upsert_vote_def)
  }
next
  assume "votes_unique d"
  then show "votes_unique (snd (saveVote fl now sessionId politicianName party vote d))"
    by (rule votes_unique_saveVote)
next
  assume "reachable_db d"
  then show "votes_unique d" by (rule reachable_votes_unique)
qed

theorem saveVote_upsert_witness:
  "vote_find 7 (politician_for ''John Doe'' ex_db) ex_db = None
   \<and> fst (saveVote no_faults 5 7 ''john doe'' ''ODS'' ''yes'' ex_db) = Inr True
   \<and> votes (snd (saveVote no_faults 5 7 ''john doe'' ''ODS'' ''yes'' ex_db)) =
       [\<lparr>vote_id = 1, v_session_id = 7, v_politician_id = 1, v_vote = ''yes'', v_created_at = 5\<rparr>]
   \<and> map vote_count (voting_sessions (snd (saveVote no_faults 5 7 ''john doe'' ''ODS'' ''yes'' ex_db))) = [1]
   \<and> votes (snd (saveVote no_faults 9 7 ''John Doe'' ''ODS'' ''no''
               (snd (saveVote no_faults 5 7 ''john doe'' ''ODS'' ''yes'' ex_db)))) =
       [\<lparr>vote_id = 1, v_session_id = 7, v_politician_id = 1, v_vote = ''no'', v_created_at = 5\<rparr>]
   \<and> map vote_count (voting_sessions (snd (saveVote no_faults 9 7 ''John Doe'' ''ODS'' ''no''
               (snd (saveVote no_faults 5 7 ''john doe'' ''ODS'' ''yes'' ex_db))))) = [1]
   \<and> reachable_db (snd (saveVote no_faults 5 7 ''john doe'' ''ODS'' ''yes'' empty_db))
   \<and> votes_unique (snd (saveVote no_faults 5 7 ''john doe'' ''ODS'' ''yes'' empty_db))
   \<and> votes_unique (snd (saveVote ex_fault_count 5 7 ''john doe'' ''ODS'' ''yes'' ex_db))"
proof -
  let ?r1 = "saveVote no_faults 5 7 ''john doe'' ''ODS'' ''yes'' ex_db"
  let ?r2 = "saveVote no_faults 9 7 ''John Doe'' ''ODS'' ''no'' (snd ?r1)"
  let ?row = "\<lparr>vote_id = 1, v_session_id = 7, v_politician_id = 1, v_vote = ''yes'', v_created_at = 5\<rparr>"
  have pf: "politician_for ''john doe'' ex_db = 1" "politician_for ''John Doe'' ex_db = 1"
    by code_simp+
  have n: "vote_find 7 1 ex_db = None" by (simp add: vote_find_def ex_db_def)
  have f1: "fst ?r1 = Inr True" by (simp add: saveVote_no_faults)
  then have r1: "?r1 = (Inr True, snd ?r1)" by (simp add: prod_eq_iff)
  have f2: "fst ?r2 = Inr True" by (simp add: saveVote_no_faults)
  then have r2: "?r2 = (Inr True, snd ?r2)" by (simp add: prod_eq_iff)
  have db0: "votes ex_db = []" "map vote_count (voting_sessions ex_db) = [0]"
    "map vs_id (voting_sessions ex_db) = [7]" "votes_seq ex_db = 1"
    by (simp_all add: ex_db_def)
  note i1 = saveVote_upsert [of no_faults 5 7 "''john doe''" "''ODS''" "''yes''" ex_db True "snd ?r1" ?row]
  have a: "votes (snd ?r1) = [?row]"
    using i1 r1 n db0 by (simp add: pf new_vote_def)
  have "voting_sessions (snd ?r1) =
          map (\<lambda>r. if vs_id r = 7 then r\<lparr>vote_count := vote_count r + 1\<rparr> else r)
            (voting_sessions ex_db)"
    using i1 r1 n by (simp add: pf)
  then have b: "map vote_count (voting_sessions (snd ?r1)) = [1]"
    by (simp add: ex_db_def)
  have pf2: "politician_for ''John Doe'' (snd ?r1) = 1" by code_simp
  have e: "vote_find 7 1 (snd ?r1) = Some ?row" using a by (simp add: vote_find_def)
  note i2 = saveVote_upsert [of no_faults 9 7 "''John Doe''" "''ODS''" "''no''" "snd ?r1" True "snd ?r2" ?row]
  have c: "votes (snd ?r2) = [?row\<lparr>v_vote := ''no''\<rparr>]"
    using i2 r2 e a by (simp add: pf2)
  have d: "map vote_count (voting_sessions (snd ?r2)) = [1]"
    using i2 r2 e b by (simp add: pf2)
  have re: "reachable_db (snd (saveVote no_faults 5 7 ''john doe'' ''ODS'' ''yes'' empty_db))"
    by (rule reachable_db.vote [OF reachable_db.empty])
  have u0: "votes_unique ex_db" by (simp add: votes_unique_def ex_db_def)
  have u: "votes_unique (snd (saveVote no_faults 5 7 ''john doe'' ''ODS'' ''yes'' empty_db))"
    using saveVote_upsert
      [of no_faults 5 7 "''john doe''" "''ODS''" "''yes''"
          "snd (saveVote no_faults 5 7 ''john doe'' ''ODS'' ''yes'' empty_db)"] re
    by blast
  have w: "votes_unique (snd (saveVote ex_fault_count 5 7 ''john doe'' ''ODS'' ''yes'' ex_db))"
    using saveVote_upsert [of ex_fault_count 5 7 "''john doe''" "''ODS''" "''yes''" ex_db] u0
    by blast
  from n f1 a b c d re u w show ?thesis by (simp add: pf)
qed

lemma saveTweetsToDatabase_error:
  assumes "saveTweetsToDatabase fl td pid s = (Inl e, s')"
  shows "\<exists>m. e = DbError m" and "\<not> fl GetClient \<Longrightarrow> last (queries s') = Rollback"
  using assms
  by (auto simp: saveTweetsToDatabase_def save_tweets_try_def pg_rollback_def pg_send_def Let_def
      split: if_splits prod.splits sum.splits)

lemma checkAndFixTwitterHandles_error:
  assumes "checkAndFixTwitterHandles fl s = (Inl e, s')"
  shows "\<exists>m. e = DbError m" and "\<not> fl GetClient \<Longrightarrow> last (queries s') = Rollback"
  using assms
  by (auto simp: checkAndFixTwitterHandles_def check_fix_try_def pg_rollback_def pg_send_def Let_def
      split: if_splits prod.splits sum.splits)

lemma saveVote_count_fails:
  assumes "\<not> fl SelectPolitician" "\<not> fl InsertPolitician" "\<not> fl UpdatePoliticianParty"
    "\<not> fl SelectVote" "\<not> fl InsertVote" "fl UpdateVoteCount"
    and "vote_find sid (politician_for name d) d = None"
  shows "saveVote fl now sid name party v d =
           (Inl FailedToSaveVote,
            (upsert_politician now name party d)
              \<lparr>votes := votes d @ [new_vote now sid (politician_for name d) v d],
               votes_seq := votes_seq d + 1\<rparr>)"
proof -
  have "find (\<lambda>r. v_session_id r = sid \<and> v_politician_id r = politician_for name d)
          (votes (upsert_politician now name party d)) = None"
    using assms(7) by (simp add: vote_find_def)
  then show ?thesis
    using assms(1-6)
    by (auto simp: saveVote_split upsertVote_def new_vote_def Let_def split: option.splits)
qed

text \<open>
  Claim C1, as amended.  \<open>saveTweetsToDatabase\<close> and \<open>checkAndFixTwitterHandles\<close> run
  between \<open>BEGIN\<close> and \<open>COMMIT\<close> on one client: when a statement throws, \<open>ROLLBACK\<close>
  is the last statement sent, the database is the one before the call and the error of
  the driver reaches the caller.  \<open>saveVote\<close> runs without a transaction: every failure
  reaches the caller as the error \<open>Failed to save vote\<close>, and when the increment of
  \<open>vote_count\<close> fails after the insert of the Vote row, the politician written and the
  Vote row stay in the database while no \<open>vote_count\<close> has changed.
\<close>

theorem ingestion_transactions:
  "(saveTweetsToDatabase fl tweetData politicianId s = (Inl e, s') \<longrightarrow>
      database s' = database s \<and> (\<exists>m. e = DbError m)
      \<and> (\<not> fl GetClient \<longrightarrow> last (queries s') = Rollback))
   \<and> (checkAndFixTwitterHandles fl s = (Inl e, s') \<longrightarrow>
      database s' = database s \<and> (\<exists>m. e = DbError m)
      \<and> (\<not> fl GetClient \<longrightarrow> last (queries s') = Rollback))
   \<and> (saveVote fl now sessionId politicianName party vote d = (Inl e2, d') \<longrightarrow>
      e2 = FailedToSaveVote)
   \<and> (\<not> fl SelectPolitician \<longrightarrow> \<not> fl InsertPolitician \<longrightarrow> \<not> fl UpdatePoliticianParty \<longrightarrow>
      \<not> fl SelectVote \<longrightarrow> \<not> fl InsertVote \<longrightarrow> fl UpdateVoteCount \<longrightarrow>
      vote_find sessionId (politician_for politicianName d) d = None \<longrightarrow>
        saveVote fl now sessionId politicianName party vote d =
          (Inl FailedToSaveVote,
           (upsert_politician now politicianName party d)
             \<lparr>votes := votes d @ [new_vote now sessionId (politician_for politicianName d) vote d],
              votes_seq := votes_seq d + 1\<rparr>))"
proof (intro conjI impI)
  assume a: "saveTweetsToDatabase fl tweetData politicianId s = (Inl e, s')"
  show "database s' = database s" by (rule saveTweetsToDatabase_fail [OF a])
  show "\<exists>m. e = DbError m" by (rule saveTweetsToDatabase_error(1) [OF a])
  assume "\<not> fl GetClient"
  then show "last (queries s') = Rollback" by (rule saveTweetsToDatabase_error(2) [OF a])
next
  assume a: "checkAndFixTwitterHandles fl s = (Inl e, s')"
  show "database s' = database s" by (rule checkAndFixTwitterHandles_fail [OF a])
  show "\<exists>m. e = DbError m" by (rule checkAndFixTwitterHandles_error(1) [OF a])
  assume "\<not> fl GetClient"
  then show "last (queries s') = Rollback" by (rule checkAndFixTwitterHandles_error(2) [OF a])
next
  assume "saveVote fl now sessionId politicianName party vote d = (Inl e2, d')"
  then show "e2 = FailedToSaveVote" by (rule saveVote_Inl)
next
  assume "\<not> fl SelectPolitician" "\<not> fl InsertPolitician" "\<not> fl UpdatePoliticianParty"
    "\<not> fl SelectVote" "\<not> fl InsertVote" "fl UpdateVoteCount"
    "vote_find sessionId (politician_for politicianName d) d = None"
  then show "saveVote fl now sessionId politicianName party vote d =
          (Inl FailedToSaveVote,
           (upsert_politician now politicianName party d)
             \<lparr>votes := votes d @ [new_vote now sessionId (politician_for politicianName d) vote d],
              votes_seq := votes_seq d + 1\<rparr>)"
    by (rule saveVote_count_fails)
qed

theorem ingestion_transactions_witness:
  "fst (saveTweetsToDatabase ex_fault_insert [ex_tw1, ex_tw2] 1 ex_state) = Inl (DbError ''INSERT'')
   \<and> database (snd (saveTweetsToDatabase ex_fault_insert [ex_tw1, ex_tw2] 1 ex_state)) = ex_db
   \<and> queries (snd (saveTweetsToDatabase ex_fault_insert [ex_tw1, ex_tw2] 1 ex_state)) =
       [Begin, SelectTweetIds, InsertTweets, Rollback]
   \<and> fst (checkAndFixTwitterHandles ex_fault_update ex_state) = Inl (DbError ''UPDATE'')
   \<and> database (snd (checkAndFixTwitterHandles ex_fault_update ex_state)) = ex_db
   \<and> vote_find 7 (politician_for ''Petr Fiala'' ex_db) ex_db = None
   \<and> fst (saveVote ex_fault_count 5 7 ''Petr Fiala'' ''ODS'' ''yes'' ex_db) = Inl FailedToSaveVote
   \<and> votes (snd (saveVote ex_fault_count 5 7 ''Petr Fiala'' ''ODS'' ''yes'' ex_db)) =
       [\<lparr>vote_id = 1, v_session_id = 7, v_politician_id = 3, v_vote = ''yes'', v_created_at = 5\<rparr>]"
proof -
  let ?t = "saveTweetsToDatabase ex_fault_insert [ex_tw1, ex_tw2] 1 ex_state"
  let ?h = "checkAndFixTwitterHandles ex_fault_update ex_state"
  let ?v = "saveVote ex_fault_count 5 7 ''Petr Fiala'' ''ODS'' ''yes'' ex_db"
  have ft: "fst ?t = Inl (DbError ''INSERT'')" by code_simp
  then have t: "?t = (Inl (DbError ''INSERT''), snd ?t)" by (simp add: prod_eq_iff)
  have fh: "fst ?h = Inl (DbError ''UPDATE'')" by code_simp
  then have h: "?h = (Inl (DbError ''UPDATE''), snd ?h)" by (simp add: prod_eq_iff)
  have qt: "queries (snd ?t) = [Begin, SelectTweetIds, InsertTweets, Rollback]" by code_simp
  have db: "database ex_state = ex_db" by (simp add: ex_state_def)
  have pf: "politician_for ''Petr Fiala'' ex_db = 3" by code_simp
  have n: "vote_find 7 3 ex_db = None" by (simp add: vote_find_def ex_db_def)
  have fl: "\<not> ex_fault_count SelectPolitician" "\<not> ex_fault_count InsertPolitician"
    "\<not> ex_fault_count UpdatePoliticianParty" "\<not> ex_fault_count SelectVote"
    "\<not> ex_fault_count InsertVote" "ex_fault_count UpdateVoteCount"
    by (simp_all add: ex_fault_count_def)
  have a: "database (snd ?t) = ex_db"
    using ingestion_transactions [of ex_fault_insert "[ex_tw1, ex_tw2]" 1 ex_state "DbError ''INSERT''" "snd ?t"]
      t db by simp
  have b: "database (snd ?h) = ex_db"
    using ingestion_transactions [of ex_fault_update "[]" 1 ex_state "DbError ''UPDATE''" "snd ?h"]
      h db by simp
  have c: "?v = (Inl FailedToSaveVote,
           (upsert_politician 5 ''Petr Fiala'' ''ODS'' ex_db)
             \<lparr>votes := votes ex_db @ [new_vote 5 7 3 ''yes'' ex_db], votes_seq := votes_seq ex_db + 1\<rparr>)"
    using ingestion_transactions [of ex_fault_count "[]" 1 ex_state _ _ 5 7 "''Petr Fiala''" "''ODS''" "''yes''" ex_db]
      fl n by (simp add: pf)
  have c1: "fst ?v = Inl FailedToSaveVote" unfolding c by simp
  have c2: "votes (snd ?v) =
       [\<lparr>vote_id = 1, v_session_id = 7, v_politician_id = 3, v_vote = ''yes'', v_created_at = 5\<rparr>]"
    unfolding c by (simp add: new_vote_def ex_db_def)
  from ft a qt fh b n c1 c2 show ?thesis by (simp add: pf)
qed

text \<open>
  Claim C1 as stated fails for \<open>saveVote\<close>: when the increment of \<open>vote_count\<close> throws
  after the insert of the Vote row, the row is in the database, with the count of its
  session still 0, and the politician created for it is there as well.
\<close>

theorem saveVote_partial_write_counterexample:
  "fst (saveVote ex_fault_count 5 7 ''Petr Fiala'' ''ODS'' ''yes'' ex_db) = Inl FailedToSaveVote
   \<and> votes ex_db = []
   \<and> votes (snd (saveVote ex_fault_count 5 7 ''Petr Fiala'' ''ODS'' ''yes'' ex_db)) =
       [\<lparr>vote_id = 1, v_session_id = 7, v_politician_id = 3, v_vote = ''yes'', v_created_at = 5\<rparr>]
   \<and> map vote_count (voting_sessions (snd (saveVote ex_fault_count 5 7 ''Petr Fiala'' ''ODS'' ''yes'' ex_db))) = [0]
   \<and> map pol_name (politicians (snd (saveVote ex_fault_count 5 7 ''Petr Fiala'' ''ODS'' ''yes'' ex_db))) =
       [''John Doe'', ''Jane Doe'', ''Petr Fiala'']
   \<and> snd (saveVote ex_fault_count 5 7 ''Petr Fiala'' ''ODS'' ''yes'' ex_db) \<noteq> ex_db"
proof -
  let ?v = "saveVote ex_fault_count 5 7 ''Petr Fiala'' ''ODS'' ''yes'' ex_db"
  have a: "fst ?v = Inl FailedToSaveVote" by code_simp
  have b: "votes ex_db = []" by (simp add: ex_db_def)
  have c: "votes (snd ?v) =
       [\<lparr>vote_id = 1, v_session_id = 7, v_politician_id = 3, v_vote = ''yes'', v_created_at = 5\<rparr>]"
    by code_simp
  have d: "map vote_count (voting_sessions (snd ?v)) = [0]" by code_simp
  have e: "map pol_name (politicians (snd ?v)) = [''John Doe'', ''Jane Doe'', ''Petr Fiala'']"
    by code_simp
  have f: "snd ?v \<noteq> ex_db" using b c by auto
  from a b c d e f show ?thesis by blast
qed


section \<open>Running a batch twice\<close>



lemma db_call_vote:
  "db_call now (SaveVote sid name party v) d =
     upsert_vote now sid (politician_for name d) v (upsert_politician now name party d)"
  by (simp add: db_call_def saveVote_no_faults)

lemma db_call_session:
  "db_call now (SaveVotingSession sid title date) d =
     (case parseInt sid of
        None \<Rightarrow> d
      | Some n \<Rightarrow>
          if list_ex (\<lambda>r. vs_id r = n) (voting_sessions d) then d
          else d\<lparr>voting_sessions := voting_sessions d @
                 [\<lparr>vs_id = n, vs_session_id = sid, vs_title = title, vs_date = date,
                   vote_count = 0, vs_created_at = now\<rparr>]\<rparr>)"
proof -
  have "find (\<lambda>r. vs_id r = n) xs \<noteq> None" if "list_ex (\<lambda>r. vs_id r = n) xs"
    for n and xs :: "voting_session list"
    using that by (induction xs) auto
  then show ?thesis
    by (auto simp: db_call_def saveVotingSession_def sessionExists_def no_faults_def
        split: option.splits)
qed


subsection \<open>Rows keep their keys\<close>

lemma set_party_keys [simp]:
  "pol_id (set_party n party q) = pol_id q"
  "pol_name (set_party n party q) = pol_name q"
  by (simp_all add: set_party_def)

lemma set_vote_keys [simp]:
  "vote_id (set_vote n v r) = vote_id r"
  "v_session_id (set_vote n v r) = v_session_id r"
  "v_politician_id (set_vote n v r) = v_politician_id r"
  by (simp_all add: set_vote_def)

lemma prow_keys [simp]:
  "pol_id (prow d c q) = pol_id q" "pol_name (prow d c q) = pol_name q"
  by (simp_all add: prow_def split: call.splits)

lemma vrow_keys [simp]:
  "vote_id (vrow d c r) = vote_id r" "v_session_id (vrow d c r) = v_session_id r"
  "v_politician_id (vrow d c r) = v_politician_id r"
  by (simp_all add: vrow_def split: call.splits)

lemma fold_prow_keys [simp]:
  "pol_id (fold (prow d) cs q) = pol_id q" "pol_name (fold (prow d) cs q) = pol_name q"
  by (induction cs arbitrary: q) simp_all

lemma fold_vrow_keys [simp]:
  "vote_id (fold (vrow d) cs r) = vote_id r"
  "v_session_id (fold (vrow d) cs r) = v_session_id r"
  "v_politician_id (fold (vrow d) cs r) = v_politician_id r"
  by (induction cs arbitrary: r) simp_all





subsection \<open>The lookups after a call\<close>





lemma politicians_upsert_vote [simp]:
  "politicians (upsert_vote now sid pid v d) = politicians d"
  "politicians_seq (upsert_vote now sid pid v d) = politicians_seq d"
  "tweets (upsert_vote now sid pid v d) = tweets d"
  by (simp_all add: upsert_vote_def split: option.splits)

lemma pol_find_upsert_vote [simp]:
  "pol_find name (upsert_vote now sid pid v d) = pol_find name d"
  "politician_for name (upsert_vote now sid pid v d) = politician_for name d"
  by (simp_all add: pol_find_def politician_for_def split: option.splits)

lemma politicians_db_call_other [simp]:
  "politicians (db_call now (SaveVotingSession sid title date) d) = politicians d"
  "politicians_seq (db_call now (SaveVotingSession sid title date) d) = politicians_seq d"
  "votes (db_call now (SaveVotingSession sid title date) d) = votes d"
  "votes_seq (db_call now (SaveVotingSession sid title date) d) = votes_seq d"
  "tweets (db_call now (SaveVotingSession sid title date) d) = tweets d"
  "politicians (db_call now (SaveTweets td pid) d) = politicians d"
  "politicians_seq (db_call now (SaveTweets td pid) d) = politicians_seq d"
  "votes (db_call now (SaveTweets td pid) d) = votes d"
  "votes_seq (db_call now (SaveTweets td pid) d) = votes_seq d"
  "voting_sessions (db_call now (SaveTweets td pid) d) = voting_sessions d"
  by (simp_all add: db_call_session db_call_def[of now "SaveTweets td pid"] split: option.splits)

lemma pol_find_db_call_other [simp]:
  "pol_find name (db_call now (SaveVotingSession sid title date) d) = pol_find name d"
  "pol_find name (db_call now (SaveTweets td pid) d) = pol_find name d"
  "politician_for name (db_call now (SaveVotingSession sid title date) d) = politician_for name d"
  "politician_for name (db_call now (SaveTweets td pid) d) = politician_for name d"
  "vote_find s p (db_call now (SaveVotingSession sid title date) d) = vote_find s p d"
  "vote_find s p (db_call now (SaveTweets td pid) d) = vote_find s p d"
  by (simp_all add: pol_find_def politician_for_def vote_find_def split: option.splits)




lemma votes_seq_upsert_vote:
  "votes_seq (upsert_vote now sid pid v d) =
     (if vote_find sid pid d = None then votes_seq d + 1 else votes_seq d)"
  by (simp add: upsert_vote_def split: option.splits)





subsection \<open>What a call leaves covered\<close>






subsection \<open>Serial ids\<close>

lemma db_wf_upsert_politician:
  "db_wf d \<Longrightarrow> db_wf (upsert_politician now name party d)"
  by (auto simp: db_wf_def upsert_politician_def split: option.splits)

lemma db_wf_upsert_vote:
  "db_wf d \<Longrightarrow> db_wf (upsert_vote now sid pid v d)"
  by (auto simp: db_wf_def upsert_vote_def new_vote_def split: option.splits)

lemma db_wf_db_call:
  "db_wf d \<Longrightarrow> db_wf (db_call now c d)"
proof (cases c)
  case (SaveVote sid name party v)
  assume "db_wf d"
  then show ?thesis
    unfolding SaveVote db_call_vote by (intro db_wf_upsert_vote db_wf_upsert_politician)
qed (simp_all add: db_wf_def)

subsection \<open>The rows after a call\<close>








subsection \<open>A second run\<close>

lemma overwritten_lookups [simp]:
  "politician_for name (overwritten t cs) = politician_for name t"
  "(pol_find name (overwritten t cs) = None) = (pol_find name t = None)"
  "vote_for sid name (overwritten t cs) = vote_for sid name t"
  "(vote_find sid pid (overwritten t cs) = None) = (vote_find sid pid t = None)"
proof -
  have p: "pol_find name (overwritten t cs) = map_option (fold (prow t) cs) (pol_find name t)"
    for name
    unfolding pol_find_def overwritten_def by (simp add: find_map_same)
  have v: "vote_find sid pid (overwritten t cs) = map_option (fold (vrow t) cs) (vote_find sid pid t)"
    for sid pid
    unfolding vote_find_def overwritten_def by (simp add: find_map_same)
  have s: "politicians_seq (overwritten t cs) = politicians_seq t"
    "votes_seq (overwritten t cs) = votes_seq t"
    by (simp_all add: overwritten_def)
  show pf: "politician_for name (overwritten t cs) = politician_for name t"
    by (simp add: politician_for_def p s split: option.splits)
  show "(pol_find name (overwritten t cs) = None) = (pol_find name t = None)"
    by (simp add: p)
  show "vote_for sid name (overwritten t cs) = vote_for sid name t"
    by (simp add: vote_for_def pf v s split: option.splits)
  show "(vote_find sid pid (overwritten t cs) = None) = (vote_find sid pid t = None)"
    by (simp add: v)
qed

lemma overwritten_fields [simp]:
  "voting_sessions (overwritten t cs) = voting_sessions t"
  "tweets (overwritten t cs) = tweets t"
  "politicians_seq (overwritten t cs) = politicians_seq t"
  "votes_seq (overwritten t cs) = votes_seq t"
  by (simp_all add: overwritten_def)

lemma overwritten_rows [simp]:
  "prow (overwritten t cs) c = prow t c" "vrow (overwritten t cs) c = vrow t c"
  "covered c (overwritten t cs) = covered c t"
  by (simp_all add: prow_def vrow_def covered_def stored_ids_def
      split: call.splits option.splits)






lemma db_wf_db_run: "db_wf d \<Longrightarrow> db_wf (db_run b d)"
  by (induction b arbitrary: d) (auto simp: db_wf_db_call)


subsection \<open>Serial ids in the reachable databases\<close>

lemma db_wf_upsertVote:
  "db_wf d \<Longrightarrow> db_wf (snd (upsertVote fl now sid pid v d))"
  by (auto simp: db_wf_def upsertVote_def Let_def split: option.splits)

lemma db_wf_saveVote:
  assumes "db_wf d"
  shows "db_wf (snd (saveVote fl now sid name party v d))"
  using assms db_wf_upsertVote [OF db_wf_upsert_politician [OF assms], of fl now sid _ v now name party]
  by (simp add: saveVote_split)

lemma db_wf_saveVotingSession:
  "db_wf d \<Longrightarrow> db_wf (snd (saveVotingSession fl now sid title date d))"
  by (auto simp: db_wf_def saveVotingSession_def split: option.splits)

lemma db_wf_apply_handle_updates:
  "db_wf d \<Longrightarrow> db_wf (apply_handle_updates us d)"
  by (auto simp: db_wf_def apply_handle_updates_def split: option.splits)

lemma db_wf_tweets:
  "db_wf d \<Longrightarrow> db_wf (d\<lparr>tweets := ts\<rparr>)"
  by (simp add: db_wf_def)

lemma reachable_db_wf: "reachable_db d \<Longrightarrow> db_wf d"
proof (induction rule: reachable_db.induct)
  case empty
  then show ?case by (simp add: db_wf_def empty_db_def)
next
  case (session d fl now sessionId title date)
  then show ?case by (simp add: db_wf_saveVotingSession)
next
  case (vote d fl now sessionId politicianName party v)
  then show ?case by (simp add: db_wf_saveVote)
next
  case (tweets s fl tweetData politicianId)
  obtain r s' where r: "saveTweetsToDatabase fl tweetData politicianId s = (r, s')"
    by (cases "saveTweetsToDatabase fl tweetData politicianId s")
  have "db_wf (database s')"
    using r saveTweetsToDatabase_ok(1) [of fl tweetData politicianId s _ s']
      saveTweetsToDatabase_fail [of fl tweetData politicianId s _ s'] tweets(2)
    by (cases r) (auto simp: db_wf_tweets)
  with r show ?case by simp
next
  case (handles s fl)
  have "database (snd (checkAndFixTwitterHandles fl s)) = database s \<or>
        (\<exists>us. database (snd (checkAndFixTwitterHandles fl s)) =
                apply_handle_updates us (database s))"
    by (auto simp: checkAndFixTwitterHandles_def check_fix_try_def pg_begin_def pg_send_def
        pg_view_def pg_write_def pg_commit_def pg_rollback_def Let_def
        split: prod.splits sum.splits if_splits)
  with handles(2) show ?case by (auto simp: db_wf_apply_handle_updates)
qed




end
